theory Spec2Isabelle
  imports Main "HOL-Library.Word" "HOL-Library.Sublist"
begin

section \<open>JavaScript strings\<close>

text \<open>
  A JavaScript string is a sequence of 16-bit code units, and \<open>length\<close>, \<open>slice\<close>,
  \<open>indexOf\<close>, \<open>trim\<close> and \<open>split\<close> all count code units. A string is therefore a
  list of 16-bit words; \<open>js\<close> turns an ASCII literal into one.
\<close>

type_synonym jschar = "16 word"
type_synonym jsstring = "jschar list"

definition js :: "string \<Rightarrow> jsstring" where
  "js s = map of_char s"

text \<open>\<^verbatim>\<open>s.slice(start, end)\<close>: a negative index counts from the end, both are clamped to
  the string, and an empty string results when the end is not after the start.\<close>

definition slice :: "jsstring \<Rightarrow> int \<Rightarrow> int \<Rightarrow> jsstring" where
  "slice s start end' =
     (let len = int (length s);
          from = (if start < 0 then max (len + start) 0 else min start len);
          to = (if end' < 0 then max (len + end') 0 else min end' len)
      in take (nat (to - from)) (drop (nat from) s))"

text \<open>\<^verbatim>\<open>s.slice(start)\<close>: the end defaults to the length.\<close>

definition sliceFrom :: "jsstring \<Rightarrow> int \<Rightarrow> jsstring" where
  "sliceFrom s start = slice s start (int (length s))"

text \<open>\<^verbatim>\<open>s.indexOf(needle)\<close>: the index of the first occurrence, or -1.\<close>

fun indexOfFrom :: "jsstring \<Rightarrow> jsstring \<Rightarrow> nat \<Rightarrow> int" where
  "indexOfFrom needle [] i = (if needle = [] then int i else - 1)"
| "indexOfFrom needle (c # cs) i =
     (if prefix needle (c # cs) then int i else indexOfFrom needle cs (Suc i))"

definition indexOf :: "jsstring \<Rightarrow> jsstring \<Rightarrow> int" where
  "indexOf s needle = indexOfFrom needle s 0"

text \<open>\<^verbatim>\<open>s.trim()\<close> removes the code units of WhiteSpace and LineTerminator from both
  ends: TAB, LF, VT, FF, CR, SP, NBSP, U+1680, U+2000 to U+200A, U+2028, U+2029,
  U+202F, U+205F, U+3000 and U+FEFF.\<close>

definition isWhiteSpace :: "jschar \<Rightarrow> bool" where
  "isWhiteSpace c =
     (c \<in> set [0x09, 0x0A, 0x0B, 0x0C, 0x0D, 0x20, 0xA0, 0x1680, 0x2028, 0x2029,
                0x202F, 0x205F, 0x3000, 0xFEFF]
      \<or> (0x2000 \<le> c \<and> c \<le> 0x200A))"

definition trim :: "jsstring \<Rightarrow> jsstring" where
  "trim s = rev (dropWhile isWhiteSpace (rev (dropWhile isWhiteSpace s)))"

text \<open>\<^verbatim>\<open>s.split(sep)\<close> for a separator of one code unit. The result is never empty:
  the empty string splits into one empty piece.\<close>

fun splitOn :: "jschar \<Rightarrow> jsstring \<Rightarrow> jsstring list" where
  "splitOn sep [] = [[]]"
| "splitOn sep (c # cs) =
     (if c = sep then [] # splitOn sep cs
      else (case splitOn sep cs of [] \<Rightarrow> [[c]] | l # ls \<Rightarrow> (c # l) # ls))"

definition LF :: jschar where
  "LF = 0x0A"

text \<open>Decimal text of an integer, as a template literal prints a number.\<close>

fun digits :: "nat \<Rightarrow> jsstring" where
  "digits n = (if n < 10 then [0x30 + of_nat n]
               else digits (n div 10) @ [0x30 + of_nat (n mod 10)])"

definition showInt :: "int \<Rightarrow> jsstring" where
  "showInt i = (if i < 0 then js ''-'' @ digits (nat (- i)) else digits (nat i))"

section \<open>Buffers\<close>

text \<open>
  What arrives from a pipe is a \<open>Buffer\<close>, a sequence of bytes. \<open>data.toString()\<close> decodes
  it as UTF-8 into code units: a code point beyond U+FFFF becomes a surrogate pair, and
  every maximal part of an ill-formed sequence becomes U+FFFD. A sequence that is cut
  off by the end of the buffer is ill-formed: the decoder knows nothing of the buffer
  that comes next.
\<close>

type_synonym byte = "8 word"
type_synonym buffer = "byte list"

definition replacement :: jschar where
  "replacement = 0xFFFD"

datatype lead = Single | Lead2 | Lead3 | Lead4 | Invalid

definition classify :: "byte \<Rightarrow> lead" where
  "classify b =
     (if b < 0x80 then Single
      else if 0xC2 \<le> b \<and> b \<le> 0xDF then Lead2
      else if 0xE0 \<le> b \<and> b \<le> 0xEF then Lead3
      else if 0xF0 \<le> b \<and> b \<le> 0xF4 then Lead4
      else Invalid)"

definition isContinuation :: "byte \<Rightarrow> bool" where
  "isContinuation c = (0x80 \<le> c \<and> c \<le> 0xBF)"

text \<open>The range of the byte after a lead byte: narrower after E0, ED, F0 and F4, which
  excludes overlong forms, surrogates and code points beyond U+10FFFF.\<close>

definition secondOk :: "byte \<Rightarrow> byte \<Rightarrow> bool" where
  "secondOk b c =
     ((if b = 0xE0 then 0xA0 else if b = 0xF0 then 0x90 else 0x80) \<le> c
      \<and> c \<le> (if b = 0xED then 0x9F else if b = 0xF4 then 0x8F else 0xBF))"

definition codeUnits :: "int \<Rightarrow> jsstring" where
  "codeUnits cp =
     (if cp < 0x10000 then [of_int cp]
      else [of_int (0xD800 + (cp - 0x10000) div 0x400),
            of_int (0xDC00 + (cp - 0x10000) mod 0x400)])"

definition two :: "byte \<Rightarrow> byte \<Rightarrow> int" where
  "two b c = (uint b mod 0x20) * 0x40 + uint c mod 0x40"

definition three :: "byte \<Rightarrow> byte \<Rightarrow> byte \<Rightarrow> int" where
  "three b c d = ((uint b mod 0x10) * 0x40 + uint c mod 0x40) * 0x40 + uint d mod 0x40"

definition four :: "byte \<Rightarrow> byte \<Rightarrow> byte \<Rightarrow> byte \<Rightarrow> int" where
  "four b c d e =
     (((uint b mod 8) * 0x40 + uint c mod 0x40) * 0x40 + uint d mod 0x40) * 0x40
     + uint e mod 0x40"

fun toString :: "buffer \<Rightarrow> jsstring" where
  "toString [] = []"
| "toString (b # bs) =
     (case classify b of
        Single \<Rightarrow> ucast b # toString bs
      | Invalid \<Rightarrow> replacement # toString bs
      | Lead2 \<Rightarrow>
          (case bs of
             [] \<Rightarrow> [replacement]
           | c # cs \<Rightarrow>
               if secondOk b c then codeUnits (two b c) @ toString cs
               else replacement # toString bs)
      | Lead3 \<Rightarrow>
          (case bs of
             [] \<Rightarrow> [replacement]
           | c # cs \<Rightarrow>
               if secondOk b c then
                 (case cs of
                    [] \<Rightarrow> [replacement]
                  | d # ds \<Rightarrow>
                      if isContinuation d then codeUnits (three b c d) @ toString ds
                      else replacement # toString cs)
               else replacement # toString bs)
      | Lead4 \<Rightarrow>
          (case bs of
             [] \<Rightarrow> [replacement]
           | c # cs \<Rightarrow>
               if secondOk b c then
                 (case cs of
                    [] \<Rightarrow> [replacement]
                  | d # ds \<Rightarrow>
                      if isContinuation d then
                        (case ds of
                           [] \<Rightarrow> [replacement]
                         | e # es \<Rightarrow>
                             if isContinuation e then codeUnits (four b c d e) @ toString es
                             else replacement # toString ds)
                      else replacement # toString cs)
               else replacement # toString bs))"

text \<open>A buffer that is well-formed UTF-8 by itself: every sequence in it is complete.\<close>

fun wellFormed :: "buffer \<Rightarrow> bool" where
  "wellFormed [] = True"
| "wellFormed (b # bs) =
     (case classify b of
        Single \<Rightarrow> wellFormed bs
      | Invalid \<Rightarrow> False
      | Lead2 \<Rightarrow> (case bs of c # cs \<Rightarrow> secondOk b c \<and> wellFormed cs | _ \<Rightarrow> False)
      | Lead3 \<Rightarrow>
          (case bs of
             c # d # ds \<Rightarrow> secondOk b c \<and> isContinuation d \<and> wellFormed ds
           | _ \<Rightarrow> False)
      | Lead4 \<Rightarrow>
          (case bs of
             c # d # e # es \<Rightarrow>
               secondOk b c \<and> isContinuation d \<and> isContinuation e \<and> wellFormed es
           | _ \<Rightarrow> False))"

text \<open>The bytes of a text whose code units are all ASCII: one byte each.\<close>

definition bytesOf :: "jsstring \<Rightarrow> buffer" where
  "bytesOf s = map ucast s"

section \<open>JSON values and \<open>JSON.parse\<close>\<close>

text \<open>
  The values \<open>JSON.parse\<close> can return. A number keeps the text of its literal (no
  operation of the runner looks into a number); an object is the list of its
  properties in the order of their first appearance, a repeated key keeping its place
  and taking the later value.
\<close>

datatype json =
    JNull
  | JBool bool
  | JNumber jsstring
  | JString jsstring
  | JArray "json list"
  | JObject "(jsstring \<times> json) list"

fun setProp :: "jsstring \<Rightarrow> json \<Rightarrow> (jsstring \<times> json) list \<Rightarrow> (jsstring \<times> json) list" where
  "setProp k v [] = [(k, v)]"
| "setProp k v ((k', v') # ps) = (if k = k' then (k, v) # ps else (k', v') # setProp k v ps)"

definition isJsonSpace :: "jschar \<Rightarrow> bool" where
  "isJsonSpace c = (c = 0x20 \<or> c = 0x09 \<or> c = 0x0A \<or> c = 0x0D)"

definition skipWs :: "jsstring \<Rightarrow> jsstring" where
  "skipWs s = dropWhile isJsonSpace s"

definition isDigit :: "jschar \<Rightarrow> bool" where
  "isDigit c = (0x30 \<le> c \<and> c \<le> 0x39)"

definition hexDigit :: "jschar \<Rightarrow> jschar option" where
  "hexDigit c =
     (if 0x30 \<le> c \<and> c \<le> 0x39 then Some (c - 0x30)
      else if 0x41 \<le> c \<and> c \<le> 0x46 then Some (c - 0x41 + 10)
      else if 0x61 \<le> c \<and> c \<le> 0x66 then Some (c - 0x61 + 10)
      else None)"

definition hex4 :: "jschar \<Rightarrow> jschar \<Rightarrow> jschar \<Rightarrow> jschar \<Rightarrow> jschar option" where
  "hex4 a b c d =
     (case (hexDigit a, hexDigit b, hexDigit c, hexDigit d) of
        (Some w, Some x, Some y, Some z) \<Rightarrow> Some (((w * 16 + x) * 16 + y) * 16 + z)
      | _ \<Rightarrow> None)"

text \<open>The single-character escapes: quote, backslash, slash, b, f, n, r, t.\<close>

definition unescape :: "jschar \<Rightarrow> jschar option" where
  "unescape e =
     (if e = 0x22 \<or> e = 0x5C \<or> e = 0x2F then Some e
      else if e = 0x62 then Some 0x08
      else if e = 0x66 then Some 0x0C
      else if e = 0x6E then Some 0x0A
      else if e = 0x72 then Some 0x0D
      else if e = 0x74 then Some 0x09
      else None)"

text \<open>The characters of a string literal after its opening quote, up to and
  including the closing quote. Control characters below U+0020 must be escaped.\<close>

fun parseChars :: "jsstring \<Rightarrow> (jsstring \<times> jsstring) option" where
  "parseChars [] = None"
| "parseChars (c # cs) =
     (if c = 0x22 then Some ([], cs)
      else if c = 0x5C then
        (case cs of
           [] \<Rightarrow> None
         | e # es \<Rightarrow>
             if e = 0x75 then
               (case es of
                  a # b # c' # d # rest \<Rightarrow>
                    (case hex4 a b c' d of
                       None \<Rightarrow> None
                     | Some w \<Rightarrow> map_option (\<lambda>(str, r). (w # str, r)) (parseChars rest))
                | _ \<Rightarrow> None)
             else
               (case unescape e of
                  None \<Rightarrow> None
                | Some w \<Rightarrow> map_option (\<lambda>(str, r). (w # str, r)) (parseChars es)))
      else if c < 0x20 then None
      else map_option (\<lambda>(str, r). (c # str, r)) (parseChars cs))"

text \<open>A number literal: an optional minus, an integer part without a leading zero,
  an optional fraction, an optional exponent. The result is the literal's text and
  what follows it.\<close>

definition parseNumber :: "jsstring \<Rightarrow> (jsstring \<times> jsstring) option" where
  "parseNumber s =
     (let (sign, s1) = (case s of c # cs \<Rightarrow> if c = 0x2D then ([c], cs) else ([], s) | [] \<Rightarrow> ([], s));
          ds = takeWhile isDigit s1;
          s2 = dropWhile isDigit s1
      in if ds = [] \<or> (hd ds = 0x30 \<and> length ds > 1) then None
         else
           (let (frac, s3) =
                  (case s2 of
                     c # cs \<Rightarrow> if c = 0x2E then (c # takeWhile isDigit cs, dropWhile isDigit cs)
                               else ([], s2)
                   | [] \<Rightarrow> ([], s2))
            in if frac = [0x2E] then None
               else
                 (let (ex, s4) =
                        (case s3 of
                           c # cs \<Rightarrow>
                             if c = 0x65 \<or> c = 0x45 then
                               (case cs of
                                  g # gs \<Rightarrow>
                                    if g = 0x2B \<or> g = 0x2D
                                    then (c # g # takeWhile isDigit gs, dropWhile isDigit gs)
                                    else ([c] @ takeWhile isDigit cs, dropWhile isDigit cs)
                                | [] \<Rightarrow> ([c], []))
                             else ([], s3)
                         | [] \<Rightarrow> ([], s3))
                  in if ex \<noteq> [] \<and> \<not> isDigit (last ex) then None
                     else Some (sign @ ds @ frac @ ex, s4))))"

text \<open>The recursive descent over values, array elements and object members. The
  fuel bounds the number of nested calls; \<open>JSON_parse\<close> supplies two units for every
  code unit of the text, which no text exhausts, since every second call consumes a
  code unit.\<close>

fun parseValue :: "nat \<Rightarrow> jsstring \<Rightarrow> (json \<times> jsstring) option"
  and parseElements :: "nat \<Rightarrow> jsstring \<Rightarrow> json list \<Rightarrow> (json \<times> jsstring) option"
  and parseMembers :: "nat \<Rightarrow> jsstring \<Rightarrow> (jsstring \<times> json) list \<Rightarrow> (json \<times> jsstring) option"
where
  "parseValue 0 s = None"
| "parseValue (Suc n) s =
     (case skipWs s of
        [] \<Rightarrow> None
      | c # cs \<Rightarrow>
          if c = 0x7B then
            (case skipWs cs of
               [] \<Rightarrow> None
             | d # ds \<Rightarrow> if d = 0x7D then Some (JObject [], ds) else parseMembers n cs [])
          else if c = 0x5B then
            (case skipWs cs of
               [] \<Rightarrow> None
             | d # ds \<Rightarrow> if d = 0x5D then Some (JArray [], ds) else parseElements n cs [])
          else if c = 0x22 then map_option (\<lambda>(str, r). (JString str, r)) (parseChars cs)
          else if prefix (js ''true'') (c # cs) then Some (JBool True, drop 4 (c # cs))
          else if prefix (js ''false'') (c # cs) then Some (JBool False, drop 5 (c # cs))
          else if prefix (js ''null'') (c # cs) then Some (JNull, drop 4 (c # cs))
          else map_option (\<lambda>(lit, r). (JNumber lit, r)) (parseNumber (c # cs)))"
| "parseElements 0 s acc = None"
| "parseElements (Suc n) s acc =
     (case parseValue n s of
        None \<Rightarrow> None
      | Some (v, r) \<Rightarrow>
          (case skipWs r of
             [] \<Rightarrow> None
           | c # cs \<Rightarrow>
               if c = 0x2C then parseElements n cs (acc @ [v])
               else if c = 0x5D then Some (JArray (acc @ [v]), cs)
               else None))"
| "parseMembers 0 s acc = None"
| "parseMembers (Suc n) s acc =
     (case skipWs s of
        [] \<Rightarrow> None
      | q # qs \<Rightarrow>
          if q \<noteq> 0x22 then None
          else
            (case parseChars qs of
               None \<Rightarrow> None
             | Some (k, r) \<Rightarrow>
                 (case skipWs r of
                    [] \<Rightarrow> None
                  | c # cs \<Rightarrow>
                      if c \<noteq> 0x3A then None
                      else
                        (case parseValue n cs of
                           None \<Rightarrow> None
                         | Some (v, r') \<Rightarrow>
                             (case skipWs r' of
                                [] \<Rightarrow> None
                              | d # ds \<Rightarrow>
                                  if d = 0x2C then parseMembers n ds (setProp k v acc)
                                  else if d = 0x7D then Some (JObject (setProp k v acc), ds)
                                  else None)))))"

text \<open>\<open>JSON.parse(text)\<close>: one value and nothing but white space after it, or a
  SyntaxError. The wording of a SyntaxError's message is the engine's; the model
  fixes one.\<close>

definition syntaxErrorMessage :: jsstring where
  "syntaxErrorMessage = js ''Unexpected token in JSON''"

definition JSON_parse :: "jsstring \<Rightarrow> jsstring + json" where
  "JSON_parse s =
     (case parseValue (2 * length s + 2) s of
        None \<Rightarrow> Inl syntaxErrorMessage
      | Some (v, r) \<Rightarrow> if skipWs r = [] then Inr v else Inl syntaxErrorMessage)"

subsection \<open>\<open>JSON.stringify\<close>\<close>

text \<open>
  \<open>JSON.stringify(value)\<close> without indentation, for the values above. A string is put
  between quotes: the quote, the backslash and the control characters with a short
  escape are written with it, any other control character and any surrogate without
  its partner as \<^verbatim>\<open>\uXXXX\<close> with lower-case digits, and everything else as it is.
\<close>

definition hexChar :: "int \<Rightarrow> jschar" where
  "hexChar d = of_int (if d < 10 then 0x30 + d else 0x57 + d)"

definition unicodeEscape :: "jschar \<Rightarrow> jsstring" where
  "unicodeEscape c =
     [0x5C, 0x75, hexChar (uint c div 0x1000), hexChar (uint c div 0x100 mod 0x10),
      hexChar (uint c div 0x10 mod 0x10), hexChar (uint c mod 0x10)]"

definition escapeOf :: "jschar \<Rightarrow> jschar option" where
  "escapeOf c =
     (if c = 0x08 then Some 0x62
      else if c = 0x09 then Some 0x74
      else if c = 0x0A then Some 0x6E
      else if c = 0x0C then Some 0x66
      else if c = 0x0D then Some 0x72
      else if c = 0x22 then Some 0x22
      else if c = 0x5C then Some 0x5C
      else None)"

definition isControl :: "jschar \<Rightarrow> bool" where
  "isControl c = (c < 0x20)"

definition isLeadSurrogate :: "jschar \<Rightarrow> bool" where
  "isLeadSurrogate c = (0xD800 \<le> c \<and> c \<le> 0xDBFF)"

definition isTrailSurrogate :: "jschar \<Rightarrow> bool" where
  "isTrailSurrogate c = (0xDC00 \<le> c \<and> c \<le> 0xDFFF)"

fun quoteBody :: "jsstring \<Rightarrow> jsstring" where
  "quoteBody [] = []"
| "quoteBody (c # cs) =
     (case escapeOf c of
        Some e \<Rightarrow> [0x5C, e] @ quoteBody cs
      | None \<Rightarrow>
          if isControl c \<or> isTrailSurrogate c then unicodeEscape c @ quoteBody cs
          else if isLeadSurrogate c then
            (case cs of
               [] \<Rightarrow> unicodeEscape c
             | d # ds \<Rightarrow>
                 if isTrailSurrogate d then c # d # quoteBody ds
                 else unicodeEscape c @ quoteBody cs)
          else c # quoteBody cs)"

definition quote :: "jsstring \<Rightarrow> jsstring" where
  "quote s = [0x22] @ quoteBody s @ [0x22]"

fun JSON_stringify :: "json \<Rightarrow> jsstring"
  and stringifyElements :: "json list \<Rightarrow> jsstring"
  and stringifyMembers :: "(jsstring \<times> json) list \<Rightarrow> jsstring"
where
  "JSON_stringify JNull = js ''null''"
| "JSON_stringify (JBool b) = (if b then js ''true'' else js ''false'')"
| "JSON_stringify (JNumber lit) = lit"
| "JSON_stringify (JString s) = quote s"
| "JSON_stringify (JArray vs) = js ''['' @ stringifyElements vs @ js '']''"
| "JSON_stringify (JObject ms) = js ''{'' @ stringifyMembers ms @ js ''}''"
| "stringifyElements [] = []"
| "stringifyElements [v] = JSON_stringify v"
| "stringifyElements (v # w # vs) = JSON_stringify v @ js '','' @ stringifyElements (w # vs)"
| "stringifyMembers [] = []"
| "stringifyMembers [(k, v)] = quote k @ js '':'' @ JSON_stringify v"
| "stringifyMembers ((k, v) # m # ms) =
     quote k @ js '':'' @ JSON_stringify v @ js '','' @ stringifyMembers (m # ms)"

text \<open>The values a result of a worker holds: strings and \<open>null\<close>.\<close>

definition simpleValue :: "json \<Rightarrow> bool" where
  "simpleValue v = (case v of JNull \<Rightarrow> True | JString s \<Rightarrow> True | _ \<Rightarrow> False)"

section \<open>The agent runner\<close>

subsection \<open>Configuration and constants\<close>

text \<open>
  The constants imported from \<^verbatim>\<open>./config.js\<close>. That module is not part of the sources at
  hand, so its values are parameters. The two sentinel markers are the constants of
  \<^verbatim>\<open>container-runner.ts\<close>.
\<close>

record config =
  AGENT_RUNNER_PATH :: jsstring
  AGENT_TIMEOUT :: int
  AGENT_MAX_OUTPUT_SIZE :: int
  GROUPS_DIR :: jsstring
  DATA_DIR :: jsstring

definition OUTPUT_START_MARKER :: jsstring where
  "OUTPUT_START_MARKER = js ''---NANOCLAW_OUTPUT_START---''"

definition OUTPUT_END_MARKER :: jsstring where
  "OUTPUT_END_MARKER = js ''---NANOCLAW_OUTPUT_END---''"

subsection \<open>Results\<close>

text \<open>
  The promise of \<open>runContainerAgent\<close> resolves with a JavaScript value: an object literal
  built by the runner, or whatever \<open>JSON.parse\<close> returned, which the TypeScript type
  \<open>ContainerOutput\<close> describes without any check at run time. \<open>errorOutput\<close> is the
  object literal \<^verbatim>\<open>{ status: 'error', result: null, error: msg }\<close>.
\<close>

definition errorOutput :: "jsstring \<Rightarrow> json" where
  "errorOutput msg =
     JObject [(js ''status'', JString (js ''error'')), (js ''result'', JNull),
              (js ''error'', JString msg)]"

text \<open>Property access \<^verbatim>\<open>o.k\<close> on a parsed value; \<open>None\<close> is \<^verbatim>\<open>undefined\<close>.\<close>

definition getProp :: "json \<Rightarrow> jsstring \<Rightarrow> json option" where
  "getProp v k = (case v of JObject ps \<Rightarrow> map_of ps k | _ \<Rightarrow> None)"

text \<open>The interface \<open>ContainerOutput\<close>, as a check on a value: \<open>status\<close> is
  \<open>'success'\<close> or \<open>'error'\<close>, \<open>result\<close> is a string or null, \<open>newSessionId\<close> and
  \<open>error\<close> are strings when present.\<close>

definition isStringOrAbsent :: "json option \<Rightarrow> bool" where
  "isStringOrAbsent p = (case p of None \<Rightarrow> True | Some (JString _) \<Rightarrow> True | Some _ \<Rightarrow> False)"

definition isContainerOutput :: "json \<Rightarrow> bool" where
  "isContainerOutput v =
     ((getProp v (js ''status'') = Some (JString (js ''success''))
       \<or> getProp v (js ''status'') = Some (JString (js ''error'')))
      \<and> (case getProp v (js ''result'') of
            Some JNull \<Rightarrow> True | Some (JString _) \<Rightarrow> True | _ \<Rightarrow> False)
      \<and> isStringOrAbsent (getProp v (js ''newSessionId''))
      \<and> isStringOrAbsent (getProp v (js ''error'')))"

text \<open>
  An object as a worker builds a result: every property holds a string or \<open>null\<close>, and,
  as in every object, no property occurs twice. The properties are kept in the order
  of their creation, which is the order \<open>JSON.stringify\<close> writes them in and the order
  \<open>JSON.parse\<close> creates them in.
\<close>

definition plainObject :: "json \<Rightarrow> bool" where
  "plainObject v =
     (case v of
        JObject ps \<Rightarrow> distinct (map fst ps) \<and> list_all (\<lambda>p. simpleValue (snd p)) ps
      | _ \<Rightarrow> False)"

subsection \<open>The state of one invocation\<close>

text \<open>
  The promise executor of \<open>runContainerAgent\<close> spawns the child, declares four local
  variables, starts a timer and registers five callbacks; everything that happens
  afterwards is one of these callbacks running on an event, or an event nobody listens
  to. The state of an invocation is the four variables together with what the callbacks
  act on: the timer, the promise, the signals sent to the child, and an exception that
  nobody caught.
\<close>

datatype timer_state = NotStarted | Armed | Fired | Cleared

datatype promise_state = Pending | Resolved json | Rejected jsstring

datatype fs_result = FsOk | FsThrows jsstring

record invocation =
  stdout :: jsstring
  stderr :: jsstring
  stdoutTruncated :: bool
  stderrTruncated :: bool
  timeout :: timer_state
  promise :: promise_state
  kills :: "jsstring list"
  uncaught :: "jsstring option"
  spawns :: nat

text \<open>\<open>resolve(v)\<close> settles a pending promise and does nothing to a settled one;
  \<open>clearTimeout\<close> cancels a timer that has not fired.\<close>

definition resolve :: "json \<Rightarrow> invocation \<Rightarrow> invocation" where
  "resolve v s = (case promise s of Pending \<Rightarrow> s\<lparr>promise := Resolved v\<rparr> | _ \<Rightarrow> s)"

definition clearTimeout :: "invocation \<Rightarrow> invocation" where
  "clearTimeout s = (if timeout s = Armed then s\<lparr>timeout := Cleared\<rparr> else s)"

subsection \<open>The callbacks\<close>

text \<open>\<^verbatim>\<open>child.stdout.on('data', ...)\<close>: each buffer is decoded by itself.\<close>

definition onStdoutData :: "config \<Rightarrow> buffer \<Rightarrow> invocation \<Rightarrow> invocation" where
  "onStdoutData cfg data s =
     (if stdoutTruncated s then s
      else
        (let chunk = toString data;
             remaining = AGENT_MAX_OUTPUT_SIZE cfg - int (length (stdout s))
         in if int (length chunk) > remaining
            then s\<lparr>stdout := stdout s @ slice chunk 0 remaining, stdoutTruncated := True\<rparr>
            else s\<lparr>stdout := stdout s @ chunk\<rparr>))"

text \<open>\<^verbatim>\<open>child.stderr.on('data', ...)\<close>; the lines forwarded to the debug log leave no
  trace in the state.\<close>

definition onStderrData :: "config \<Rightarrow> buffer \<Rightarrow> invocation \<Rightarrow> invocation" where
  "onStderrData cfg data s =
     (if stderrTruncated s then s
      else
        (let chunk = toString data;
             remaining = AGENT_MAX_OUTPUT_SIZE cfg - int (length (stderr s))
         in if int (length chunk) > remaining
            then s\<lparr>stderr := stderr s @ slice chunk 0 remaining, stderrTruncated := True\<rparr>
            else s\<lparr>stderr := stderr s @ chunk\<rparr>))"

text \<open>The callback of \<open>setTimeout\<close>. It runs only if the timer is still armed when the
  budget has passed.\<close>

definition timeoutMessage :: "config \<Rightarrow> jsstring" where
  "timeoutMessage cfg = js ''Agent timed out after '' @ showInt (AGENT_TIMEOUT cfg) @ js ''ms''"

definition onTimeout :: "config \<Rightarrow> invocation \<Rightarrow> invocation" where
  "onTimeout cfg s =
     (if timeout s = Armed
      then resolve (errorOutput (timeoutMessage cfg))
             (s\<lparr>timeout := Fired, kills := kills s @ [js ''SIGKILL'']\<rparr>)
      else s)"

text \<open>The \<open>try\<close> block of the close callback. \<open>jsonLine\<close> is the text handed to
  \<open>JSON.parse\<close>. Reading \<open>output.status\<close> for the log throws a TypeError when the parsed
  value is \<open>null\<close>; the \<open>catch\<close> block turns it, like a SyntaxError, into an error result.\<close>

definition jsonLine :: "jsstring \<Rightarrow> jsstring" where
  "jsonLine out =
     (let startIdx = indexOf out OUTPUT_START_MARKER;
          endIdx = indexOf out OUTPUT_END_MARKER
      in if startIdx \<noteq> - 1 \<and> endIdx \<noteq> - 1 \<and> endIdx > startIdx
         then trim (slice out (startIdx + int (length OUTPUT_START_MARKER)) endIdx)
         else last (splitOn LF (trim out)))"

definition typeErrorMessage :: jsstring where
  "typeErrorMessage =
     js ''Cannot read properties of null (reading '' @ [0x27] @ js ''status'' @ [0x27] @ js '')''"

definition parseFailure :: "jsstring \<Rightarrow> json" where
  "parseFailure msg = errorOutput (js ''Failed to parse agent output: '' @ msg)"

definition parseOutput :: "jsstring \<Rightarrow> json" where
  "parseOutput out =
     (case JSON_parse (jsonLine out) of
        Inl msg \<Rightarrow> parseFailure msg
      | Inr JNull \<Rightarrow> parseFailure typeErrorMessage
      | Inr output \<Rightarrow> output)"

text \<open>\<^verbatim>\<open>child.on('close', ...)\<close>. The exit code is \<open>None\<close> for \<^verbatim>\<open>null\<close> (the child was
  ended by a signal). Writing the log file is outside any \<open>try\<close>: when it throws, the
  callback ends there and the exception is uncaught. The text of the log is not
  modelled; nothing after it depends on it.\<close>

definition showCode :: "int option \<Rightarrow> jsstring" where
  "showCode code = (case code of None \<Rightarrow> js ''null'' | Some c \<Rightarrow> showInt c)"

definition exitMessage :: "int option \<Rightarrow> jsstring \<Rightarrow> jsstring" where
  "exitMessage code err =
     js ''Agent exited with code '' @ showCode code @ js '': '' @ sliceFrom err (- 200)"

definition onClose :: "config \<Rightarrow> int option \<Rightarrow> fs_result \<Rightarrow> invocation \<Rightarrow> invocation" where
  "onClose cfg code logWrite s =
     (let s1 = clearTimeout s
      in case logWrite of
           FsThrows e \<Rightarrow> s1\<lparr>uncaught := Some e\<rparr>
         | FsOk \<Rightarrow>
             if code \<noteq> Some 0 then resolve (errorOutput (exitMessage code (stderr s1))) s1
             else resolve (parseOutput (stdout s1)) s1)"

text \<open>\<^verbatim>\<open>child.on('error', ...)\<close>\<close>

definition onError :: "jsstring \<Rightarrow> invocation \<Rightarrow> invocation" where
  "onError msg s = resolve (errorOutput (js ''Agent spawn error: '' @ msg)) (clearTimeout s)"

subsection \<open>An invocation\<close>

text \<open>
  The input is written to \<open>child.stdin\<close> and no listener is registered for an error of
  that stream. When the write fails (the child has gone and the pipe is closed), the
  stream's error event has no listener: it is thrown, and nobody catches it.
\<close>

definition onStdinError :: "jsstring \<Rightarrow> invocation \<Rightarrow> invocation" where
  "onStdinError e s = s\<lparr>uncaught := Some e\<rparr>"

text \<open>
  The events of one invocation, in the order the event loop delivers them. A data event
  carries the buffer that arrived; a close event carries the exit code and whether
  writing the log file succeeded.
\<close>

datatype event =
    StdoutData buffer
  | StderrData buffer
  | TimeoutFires
  | Close "int option" fs_result
  | ErrorEvent jsstring
  | StdinError jsstring

fun handle :: "config \<Rightarrow> invocation \<Rightarrow> event \<Rightarrow> invocation" where
  "handle cfg s (StdoutData data) = onStdoutData cfg data s"
| "handle cfg s (StderrData data) = onStderrData cfg data s"
| "handle cfg s TimeoutFires = onTimeout cfg s"
| "handle cfg s (Close code logWrite) = onClose cfg code logWrite s"
| "handle cfg s (ErrorEvent msg) = onError msg s"
| "handle cfg s (StdinError e) = onStdinError e s"

text \<open>Before the promise is created nothing has been spawned. The executor spawns
  the child once, initialises the variables, writes the input to the child's standard
  input and starts the timer. A failure to start the child is reported later, by an
  error event, and a failure of the write by an error event of the stream.\<close>

definition notSpawned :: invocation where
  "notSpawned =
     \<lparr>stdout = [], stderr = [], stdoutTruncated = False, stderrTruncated = False,
      timeout = NotStarted, promise = Pending, kills = [], uncaught = None, spawns = 0\<rparr>"

definition executor :: "invocation \<Rightarrow> invocation" where
  "executor s =
     s\<lparr>spawns := Suc (spawns s), stdout := [], stderr := [], stdoutTruncated := False,
       stderrTruncated := False, timeout := Armed\<rparr>"

text \<open>
  \<open>runContainerAgent\<close> is an \<open>async\<close> function: the directory creations before the
  promise (\<open>mkdirSync\<close> for the group directory, those of \<open>buildAgentEnv\<close>, and the one
  for the log directory) reject the returned promise when one of them throws.
  Otherwise the executor runs and the events are handled in turn.
\<close>

definition runContainerAgent :: "config \<Rightarrow> fs_result \<Rightarrow> event list \<Rightarrow> invocation" where
  "runContainerAgent cfg mkdirs events =
     (case mkdirs of
        FsThrows e \<Rightarrow> notSpawned\<lparr>promise := Rejected e\<rparr>
      | FsOk \<Rightarrow> foldl (handle cfg) (executor notSpawned) events)"

subsection \<open>What a trace says about the worker\<close>

text \<open>The bytes the worker wrote to its standard output during a trace, and the text
  the data callback made of them, buffer by buffer, whether or not the runner kept
  it. The two differ when a buffer ends inside a character.\<close>

definition stdoutBytes :: "event list \<Rightarrow> buffer" where
  "stdoutBytes evs = concat (map (\<lambda>e. case e of StdoutData data \<Rightarrow> data | _ \<Rightarrow> []) evs)"

definition stdoutReceived :: "event list \<Rightarrow> jsstring" where
  "stdoutReceived evs =
     concat (map (\<lambda>e. case e of StdoutData data \<Rightarrow> toString data | _ \<Rightarrow> []) evs)"

fun chunkWellFormed :: "event \<Rightarrow> bool" where
  "chunkWellFormed (StdoutData data) = wellFormed data"
| "chunkWellFormed e = True"

text \<open>The captured output holds the first \<open>AGENT_MAX_OUTPUT_SIZE\<close> code units of what
  was received, and the flag tells whether more than that was received.\<close>

definition capInv :: "config \<Rightarrow> invocation \<Rightarrow> jsstring \<Rightarrow> bool" where
  "capInv cfg s w =
     (stdout s = take (nat (AGENT_MAX_OUTPUT_SIZE cfg)) w
      \<and> (stdoutTruncated s \<longleftrightarrow> AGENT_MAX_OUTPUT_SIZE cfg < int (length w)))"

text \<open>Whether a close event has been handled: the one place where the runner learns
  that the child has ended.\<close>

fun isClose :: "event \<Rightarrow> bool" where
  "isClose (Close code logWrite) = True"
| "isClose e = False"

definition exitObserved :: "event list \<Rightarrow> bool" where
  "exitObserved evs = list_ex isClose evs"

text \<open>Data events leave the timer and the promise alone, and so does an error of the
  child's standard input; every other event is meant to settle the promise.\<close>

fun isData :: "event \<Rightarrow> bool" where
  "isData (StdoutData data) = True"
| "isData (StderrData data) = True"
| "isData e = False"

fun isStdinError :: "event \<Rightarrow> bool" where
  "isStdinError (StdinError e) = True"
| "isStdinError e = False"

text \<open>The events with an exception that nobody catches: a close event whose log write
  throws, and an error of the child's standard input.\<close>

fun escapes :: "event \<Rightarrow> bool" where
  "escapes (Close code (FsThrows e)) = True"
| "escapes (StdinError e) = True"
| "escapes e = False"

text \<open>An error result: the object literal of the runner with a message that is not
  empty.\<close>

definition isErrorOutput :: "json \<Rightarrow> bool" where
  "isErrorOutput v =
     (case v of
        JObject [(k1, JString st), (k2, JNull), (k3, JString msg)] \<Rightarrow>
          k1 = js ''status'' \<and> st = js ''error'' \<and> k2 = js ''result'' \<and> k3 = js ''error''
          \<and> msg \<noteq> []
      | _ \<Rightarrow> False)"

text \<open>While the timer is armed nothing has settled the promise and no signal has
  been sent; the child has been spawned exactly once, and the promise of a started
  invocation is never rejected.\<close>

definition runInv :: "invocation \<Rightarrow> bool" where
  "runInv s =
     (spawns s = 1 \<and> timeout s \<noteq> NotStarted
      \<and> (\<forall>m. promise s \<noteq> Rejected m)
      \<and> (timeout s = Armed \<longrightarrow> promise s = Pending \<and> kills s = [])
      \<and> (timeout s \<noteq> Fired \<longrightarrow> kills s = []))"

text \<open>As long as no exception escapes: nothing is uncaught, and a pending promise means
  an armed timer.\<close>

definition settleInv :: "invocation \<Rightarrow> bool" where
  "settleInv s = (uncaught s = None \<and> (promise s = Pending \<longrightarrow> timeout s = Armed))"

subsection \<open>Occurrences of a marker\<close>

text \<open>The needle occurs in the haystack at index \<open>k\<close>; its first occurrence is the least
  such index.\<close>

definition occursAt :: "jsstring \<Rightarrow> jsstring \<Rightarrow> nat \<Rightarrow> bool" where
  "occursAt needle hay k = prefix needle (drop k hay)"

definition firstOccurrence :: "jsstring \<Rightarrow> jsstring \<Rightarrow> nat option" where
  "firstOccurrence needle hay = find (occursAt needle hay) [0..<Suc (length hay)]"

text \<open>The text between the markers, as the claim words it: both markers occur, the
  first occurrence of the end marker lies after the first occurrence of the start
  marker, and the text runs from the end of the one to the beginning of the other.\<close>

definition markedText :: "jsstring \<Rightarrow> jsstring option" where
  "markedText out =
     (case (firstOccurrence OUTPUT_START_MARKER out, firstOccurrence OUTPUT_END_MARKER out) of
        (Some i, Some k) \<Rightarrow>
          if i < k
          then Some (take (k - (i + length OUTPUT_START_MARKER))
                       (drop (i + length OUTPUT_START_MARKER) out))
          else None
      | _ \<Rightarrow> None)"

subsection \<open>The last line that is not empty\<close>

text \<open>A line is empty when it holds nothing but white space. The last line of the
  output that is not empty, if there is one.\<close>

definition isBlank :: "jsstring \<Rightarrow> bool" where
  "isBlank l = list_all isWhiteSpace l"

definition lastNonEmptyLine :: "jsstring \<Rightarrow> jsstring option" where
  "lastNonEmptyLine out =
     (let ls = filter (\<lambda>l. \<not> isBlank l) (splitOn LF out)
      in if ls = [] then None else Some (last ls))"

section \<open>The paths of a group\<close>

text \<open>
  \<open>path.join\<close> of Node, POSIX flavour: the segments that are not empty are joined by a
  slash and the result is normalised (no empty or \<open>.\<close> segment, \<open>..\<close> resolved against
  the segment before it).
\<close>

fun joinWith :: "jsstring \<Rightarrow> jsstring list \<Rightarrow> jsstring" where
  "joinWith sep [] = []"
| "joinWith sep [x] = x"
| "joinWith sep (x # y # ys) = x @ sep @ joinWith sep (y # ys)"

fun normalizeSegments :: "bool \<Rightarrow> jsstring list \<Rightarrow> jsstring list \<Rightarrow> jsstring list" where
  "normalizeSegments allowAboveRoot [] res = res"
| "normalizeSegments allowAboveRoot (seg # segs) res =
     (if seg = [] \<or> seg = js ''.'' then normalizeSegments allowAboveRoot segs res
      else if seg = js ''..'' then
        (if res \<noteq> [] \<and> last res \<noteq> js ''..''
         then normalizeSegments allowAboveRoot segs (butlast res)
         else if allowAboveRoot then normalizeSegments allowAboveRoot segs (res @ [seg])
         else normalizeSegments allowAboveRoot segs res)
      else normalizeSegments allowAboveRoot segs (res @ [seg]))"

definition normalize :: "jsstring \<Rightarrow> jsstring" where
  "normalize p =
     (if p = [] then js ''.''
      else
        (let isAbsolute = (hd p = 0x2F);
             trailingSeparator = (last p = 0x2F);
             q = joinWith (js ''/'') (normalizeSegments (\<not> isAbsolute) (splitOn 0x2F p) [])
         in if q = [] then (if isAbsolute then js ''/'' else if trailingSeparator then js ''./'' else js ''.'')
            else (if isAbsolute then js ''/'' else []) @ q @ (if trailingSeparator then js ''/'' else [])))"

definition path_join :: "jsstring list \<Rightarrow> jsstring" where
  "path_join args =
     (let joined = joinWith (js ''/'') (filter (\<lambda>a. a \<noteq> []) args)
      in if joined = [] then js ''.'' else normalize joined)"

section \<open>The environment of the worker\<close>

text \<open>
  What \<open>buildAgentEnv\<close> reads from the host process: its working directory and its
  environment. Of a \<open>RegisteredGroup\<close> (declared in \<^verbatim>\<open>./types.js\<close>, which is not at hand) the
  runner reads the fields \<open>name\<close> and \<open>folder\<close>; the record is extensible for the rest.
\<close>

record host =
  cwd :: jsstring
  process_env :: "jsstring \<rightharpoonup> jsstring"

record RegisteredGroup =
  name :: jsstring
  folder :: jsstring

text \<open>The result is the list of directories created with \<open>mkdirSync\<close>, in order, and
  the environment.\<close>

definition buildAgentEnv ::
  "host \<Rightarrow> config \<Rightarrow> 'a RegisteredGroup_scheme \<Rightarrow> bool \<Rightarrow> jsstring list \<times> (jsstring \<rightharpoonup> jsstring)"
where
  "buildAgentEnv h cfg grp isMain =
     (let projectRoot = cwd h;
          groupDir = path_join [GROUPS_DIR cfg, folder grp];
          globalDir = path_join [GROUPS_DIR cfg, js ''global''];
          groupIpcDir = path_join [DATA_DIR cfg, js ''ipc'', folder grp];
          groupSessionsDir = path_join [DATA_DIR cfg, js ''sessions'', folder grp, js ''.claude''];
          env = (process_env h)
                  (js ''WORKSPACE_GROUP'' \<mapsto> groupDir,
                   js ''WORKSPACE_GLOBAL'' \<mapsto> globalDir,
                   js ''WORKSPACE_IPC'' \<mapsto> groupIpcDir,
                   js ''CLAUDE_CONFIG_DIR'' \<mapsto> groupSessionsDir)
      in ([groupDir, path_join [groupIpcDir, js ''messages''],
           path_join [groupIpcDir, js ''tasks''], groupSessionsDir],
          if isMain then env(js ''WORKSPACE_PROJECT'' \<mapsto> projectRoot) else env))"

section \<open>The snapshots\<close>

text \<open>A task as \<open>writeTasksSnapshot\<close> declares it (\<open>id'\<close> is the field \<open>id\<close>); the
  record is extensible, a task object may carry more.\<close>

record task =
  id' :: jsstring
  groupFolder :: jsstring
  prompt :: jsstring
  schedule_type :: jsstring
  schedule_value :: jsstring
  status :: jsstring
  next_run :: "jsstring option"

text \<open>
  File system calls in the order they are issued. The content of a written file is the
  value whose text \<^verbatim>\<open>JSON.stringify(value, null, 2)\<close> is written. A call that throws ends
  the function there; the functions below list the calls of a run in which none throws.
\<close>

datatype 'c fs_op =
    MkdirSync jsstring
  | WriteFileSync jsstring 'c
  | RenameSync jsstring jsstring

definition writeTasksSnapshot ::
  "config \<Rightarrow> jsstring \<Rightarrow> bool \<Rightarrow> 'a task_scheme list \<Rightarrow> 'a task_scheme list fs_op list"
where
  "writeTasksSnapshot cfg groupFolder' isMain tasks =
     (let groupIpcDir = path_join [DATA_DIR cfg, js ''ipc'', groupFolder'];
          filteredTasks = (if isMain then tasks
                           else filter (\<lambda>t. groupFolder t = groupFolder') tasks);
          tasksFile = path_join [groupIpcDir, js ''current_tasks.json'']
      in [MkdirSync groupIpcDir, WriteFileSync tasksFile filteredTasks])"

text \<open>The object \<^verbatim>\<open>{ groups, lastSync }\<close> of the groups snapshot. \<open>now\<close> is the text of
  \<^verbatim>\<open>new Date().toISOString()\<close>; \<open>registeredJids\<close> is a parameter the function does not
  read.\<close>

datatype 'g available_groups = AvailableGroups "'g list" jsstring

definition writeGroupsSnapshot ::
  "config \<Rightarrow> jsstring \<Rightarrow> jsstring \<Rightarrow> bool \<Rightarrow> 'g list \<Rightarrow> jsstring set \<Rightarrow> 'g available_groups fs_op list"
where
  "writeGroupsSnapshot cfg now groupFolder' isMain groups registeredJids =
     (let groupIpcDir = path_join [DATA_DIR cfg, js ''ipc'', groupFolder'];
          visibleGroups = (if isMain then groups else []);
          groupsFile = path_join [groupIpcDir, js ''available_groups.json'']
      in [MkdirSync groupIpcDir, WriteFileSync groupsFile (AvailableGroups visibleGroups now)])"

text \<open>A write to a temporary name followed by a rename shows in the list of calls as
  a \<open>RenameSync\<close>.\<close>

fun isRename :: "'c fs_op \<Rightarrow> bool" where
  "isRename (RenameSync a b) = True"
| "isRename op = False"

section \<open>Example values\<close>

definition exampleConfig :: config where
  "exampleConfig =
     \<lparr>AGENT_RUNNER_PATH = js ''agent-runner/dist/index.js'', AGENT_TIMEOUT = 300000,
      AGENT_MAX_OUTPUT_SIZE = 10, GROUPS_DIR = js ''/app/groups'', DATA_DIR = js ''/app/data''\<rparr>"


definition exampleHost :: host where
  "exampleHost = \<lparr>cwd = js ''/app'', process_env = [js ''HOME'' \<mapsto> js ''/root'']\<rparr>"

definition inheritingHost :: host where
  "inheritingHost = \<lparr>cwd = js ''/app'', process_env = [js ''WORKSPACE_PROJECT'' \<mapsto> js ''/srv'']\<rparr>"

definition familyGroup :: RegisteredGroup where
  "familyGroup = \<lparr>name = js ''Family'', folder = js ''family''\<rparr>"

definition familyTask :: task where
  "familyTask =
     \<lparr>id' = js ''t1'', groupFolder = js ''family'', prompt = js ''water the plants'',
      schedule_type = js ''interval'', schedule_value = js ''3600'', status = js ''active'',
      next_run = None\<rparr>"

definition mainTask :: task where
  "mainTask =
     \<lparr>id' = js ''t2'', groupFolder = js ''main'', prompt = js ''daily summary'',
      schedule_type = js ''cron'', schedule_value = js ''0 9 * * *'', status = js ''active'',
      next_run = None\<rparr>"

definition racingTrace :: "event list" where
  "racingTrace = [StdoutData (bytesOf (js ''{}'')), TimeoutFires, Close (Some 0) FsOk]"

definition roomyConfig :: config where
  "roomyConfig =
     \<lparr>AGENT_RUNNER_PATH = js ''agent-runner/dist/index.js'', AGENT_TIMEOUT = 300000,
      AGENT_MAX_OUTPUT_SIZE = 10485760, GROUPS_DIR = js ''/app/groups'',
      DATA_DIR = js ''/app/data''\<rparr>"

text \<open>Two results of a worker and their JSON texts; the result text of the second holds
  the end marker.\<close>

definition okResult :: json where
  "okResult = JObject [(js ''status'', JString (js ''success'')), (js ''result'', JString (js ''ok''))]"

definition okText :: jsstring where
  \<open>okText = js ''{"status":"success","result":"ok"}''\<close>

definition markerResult :: json where
  "markerResult =
     JObject [(js ''status'', JString (js ''success'')), (js ''result'', JString OUTPUT_END_MARKER)]"

definition markerText :: jsstring where
  \<open>markerText = js ''{"status":"success","result":"---NANOCLAW_OUTPUT_END---"}''\<close>

definition wrappedTrace :: "event list" where
  "wrappedTrace =
     [StdoutData (bytesOf (js ''starting agent'' @ [LF])),
      StdoutData (bytesOf (OUTPUT_START_MARKER @ [LF] @ okText @ [LF])),
      StdoutData (bytesOf (OUTPUT_END_MARKER @ [LF] @ js ''done'' @ [LF]))]"

definition bareTrace :: "event list" where
  "bareTrace =
     [StdoutData (bytesOf (js ''thinking...'' @ [LF])), StdoutData (bytesOf (okText @ [LF]))]"


text \<open>A result with a character of two bytes, the bytes of its JSON text, and two traces
  of a worker that writes these bytes between the markers: in the first every buffer
  ends between two characters, in the second a buffer ends inside the character. What
  the runner makes of the second is the result with two replacement characters.\<close>

definition cafeResult :: json where
  "cafeResult =
     JObject [(js ''status'', JString (js ''success'')),
              (js ''result'', JString (js ''caf'' @ [0xE9]))]"

definition garbledResult :: json where
  "garbledResult =
     JObject [(js ''status'', JString (js ''success'')),
              (js ''result'', JString (js ''caf'' @ [replacement, replacement]))]"

definition cafeBytes :: buffer where
  \<open>cafeBytes = bytesOf (js ''{"status":"success","result":"caf'') @ [0xC3, 0xA9]
     @ bytesOf (js ''"}'')\<close>

definition wholeTrace :: "event list" where
  "wholeTrace =
     [StdoutData (bytesOf (js ''starting agent'' @ [LF])),
      StdoutData (bytesOf (OUTPUT_START_MARKER @ [LF]) @ cafeBytes),
      StdoutData (bytesOf ([LF] @ OUTPUT_END_MARKER @ [LF] @ js ''done'' @ [LF]))]"

definition splitTrace :: "event list" where
  "splitTrace =
     [StdoutData (bytesOf (js ''starting agent'' @ [LF])),
      StdoutData (bytesOf (OUTPUT_START_MARKER @ [LF]) @ take 34 cafeBytes),
      StdoutData (drop 34 cafeBytes
                  @ bytesOf ([LF] @ OUTPUT_END_MARKER @ [LF] @ js ''done'' @ [LF]))]"

section \<open>The output cap\<close>

lemma slice_0: "0 \<le> r \<Longrightarrow> slice s 0 r = take (nat r) s"
  by (simp add: slice_def Let_def min_def)

lemma capInv_onStdoutData:
  assumes "0 \<le> AGENT_MAX_OUTPUT_SIZE cfg" "capInv cfg s w"
  shows "capInv cfg (onStdoutData cfg data s) (w @ toString data)"
proof (cases "stdoutTruncated s")
  case True
  with assms show ?thesis by (auto simp: capInv_def onStdoutData_def)
next
  case False
  with assms have len: "int (length w) \<le> AGENT_MAX_OUTPUT_SIZE cfg" and out: "stdout s = w"
    by (auto simp: capInv_def)
  show ?thesis
  proof (cases "int (length (toString data)) > AGENT_MAX_OUTPUT_SIZE cfg - int (length w)")
    case True
    then show ?thesis using False len out
      by (auto simp: capInv_def onStdoutData_def Let_def slice_0 nat_diff_distrib)
  next
    case False
    then show ?thesis using \<open>\<not> stdoutTruncated s\<close> len out
      by (auto simp: capInv_def onStdoutData_def Let_def)
  qed
qed

lemma stdout_other [simp]:
  "stdout (onStderrData cfg c s) = stdout s"
  "stdoutTruncated (onStderrData cfg c s) = stdoutTruncated s"
  "stdout (onTimeout cfg s) = stdout s"
  "stdoutTruncated (onTimeout cfg s) = stdoutTruncated s"
  "stdout (onClose cfg code lw s) = stdout s"
  "stdoutTruncated (onClose cfg code lw s) = stdoutTruncated s"
  "stdout (onError m s) = stdout s"
  "stdoutTruncated (onError m s) = stdoutTruncated s"
  "stdout (onStdinError m s) = stdout s"
  "stdoutTruncated (onStdinError m s) = stdoutTruncated s"
  by (auto simp: onStderrData_def onTimeout_def onClose_def onError_def onStdinError_def resolve_def
      clearTimeout_def Let_def split: promise_state.splits fs_result.splits)

lemma stdoutReceived_append: "stdoutReceived (xs @ ys) = stdoutReceived xs @ stdoutReceived ys"
  by (simp add: stdoutReceived_def)

lemma capInv_handle:
  assumes "0 \<le> AGENT_MAX_OUTPUT_SIZE cfg" "capInv cfg s w"
  shows "capInv cfg (handle cfg s e) (w @ stdoutReceived [e])"
proof (cases e)
  case (StdoutData c)
  then show ?thesis using capInv_onStdoutData[OF assms] by (simp add: stdoutReceived_def)
qed (use assms in \<open>auto simp: capInv_def stdoutReceived_def\<close>)

lemma capInv_foldl:
  assumes "0 \<le> AGENT_MAX_OUTPUT_SIZE cfg"
  shows "capInv cfg s w \<Longrightarrow> capInv cfg (foldl (handle cfg) s evs) (w @ stdoutReceived evs)"
proof (induction evs arbitrary: s w)
  case Nil
  then show ?case by (simp add: stdoutReceived_def)
next
  case (Cons e evs)
  have "capInv cfg (handle cfg s e) (w @ stdoutReceived [e])"
    by (rule capInv_handle[OF assms Cons.prems])
  from Cons.IH[OF this] show ?case
    using stdoutReceived_append[of "[e]" evs] by simp
qed

lemma capInv_run:
  assumes "0 \<le> AGENT_MAX_OUTPUT_SIZE cfg"
  shows "capInv cfg (runContainerAgent cfg FsOk evs) (stdoutReceived evs)"
proof -
  have "capInv cfg (executor notSpawned) []"
    using assms by (simp add: capInv_def executor_def notSpawned_def)
  from capInv_foldl[OF assms this, of evs] show ?thesis
    by (simp add: runContainerAgent_def)
qed







section \<open>The timer, the promise and the events that settle it\<close>

lemmas handler_defs = onStdoutData_def onStderrData_def onTimeout_def onClose_def onError_def
  onStdinError_def resolve_def clearTimeout_def

lemma run_Nil: "runContainerAgent cfg FsOk [] = executor notSpawned"
  by (simp add: runContainerAgent_def)

lemma run_append:
  "runContainerAgent cfg FsOk (xs @ ys) = foldl (handle cfg) (runContainerAgent cfg FsOk xs) ys"
  by (simp add: runContainerAgent_def)

lemma run_snoc:
  "runContainerAgent cfg FsOk (xs @ [e]) = handle cfg (runContainerAgent cfg FsOk xs) e"
  by (simp add: runContainerAgent_def)

lemma runInv_init: "runInv (executor notSpawned)"
  by (simp add: runInv_def executor_def notSpawned_def)

lemma runInv_handle: "runInv s \<Longrightarrow> runInv (handle cfg s e)"
  by (cases e)
    (auto simp: runInv_def handler_defs Let_def split: promise_state.splits fs_result.splits)

lemma runInv_foldl: "runInv s \<Longrightarrow> runInv (foldl (handle cfg) s evs)"
  by (induction evs arbitrary: s) (simp_all add: runInv_handle)

lemma runInv_run: "runInv (runContainerAgent cfg FsOk evs)"
  by (simp add: runContainerAgent_def runInv_foldl runInv_init)

lemma resolved_handle: "promise s = Resolved v \<Longrightarrow> promise (handle cfg s e) = Resolved v"
  by (cases e) (auto simp: handler_defs Let_def split: fs_result.splits)

lemma resolved_foldl: "promise s = Resolved v \<Longrightarrow> promise (foldl (handle cfg) s evs) = Resolved v"
  by (induction evs arbitrary: s) (simp_all add: resolved_handle)

lemma timeout_handle_data: "isData e \<Longrightarrow> timeout (handle cfg s e) = timeout s"
  by (cases e) (auto simp: handler_defs Let_def)

lemma timeout_handle_stdin: "isStdinError e \<Longrightarrow> timeout (handle cfg s e) = timeout s"
  by (cases e) (auto simp: handler_defs)

lemma timeout_handle_other:
  "\<not> isData e \<Longrightarrow> \<not> isStdinError e \<Longrightarrow> timeout (handle cfg s e) \<noteq> Armed"
  by (cases e) (auto simp: handler_defs Let_def split: promise_state.splits fs_result.splits)

lemma not_armed_handle: "timeout s \<noteq> Armed \<Longrightarrow> timeout (handle cfg s e) = timeout s"
  by (cases e) (auto simp: handler_defs Let_def split: promise_state.splits fs_result.splits)

lemma not_armed_foldl: "timeout s \<noteq> Armed \<Longrightarrow> timeout (foldl (handle cfg) s evs) = timeout s"
  by (induction evs arbitrary: s) (simp_all add: not_armed_handle)

lemma armed_foldl:
  "timeout s = Armed \<Longrightarrow>
     (timeout (foldl (handle cfg) s evs) = Armed) = (\<forall>e\<in>set evs. isData e \<or> isStdinError e)"
proof (induction evs arbitrary: s)
  case Nil
  then show ?case by simp
next
  case (Cons e evs)
  show ?case
  proof (cases "isData e \<or> isStdinError e")
    case True
    then have "timeout (handle cfg s e) = timeout s"
      using timeout_handle_data timeout_handle_stdin by blast
    then show ?thesis using True Cons by simp
  next
    case False
    then have "timeout (handle cfg s e) \<noteq> Armed" by (simp add: timeout_handle_other)
    then show ?thesis using False not_armed_foldl[of "handle cfg s e" cfg evs] by simp
  qed
qed

lemma armed_run_iff:
  "(timeout (runContainerAgent cfg FsOk evs) = Armed)
     = (\<forall>e\<in>set evs. isData e \<or> isStdinError e)"
  using armed_foldl[of "executor notSpawned" cfg evs]
  by (simp add: runContainerAgent_def executor_def)

lemma armed_run: "\<forall>e\<in>set evs. isData e \<Longrightarrow> timeout (runContainerAgent cfg FsOk evs) = Armed"
  by (simp add: armed_run_iff)

lemma escapes_stdin: "\<not> escapes e \<Longrightarrow> \<not> isStdinError e"
  by (cases e) auto

lemma armed_run_quiet:
  "\<forall>e\<in>set evs. \<not> escapes e \<Longrightarrow>
     (timeout (runContainerAgent cfg FsOk evs) = Armed) = (\<forall>e\<in>set evs. isData e)"
  using escapes_stdin by (auto simp: armed_run_iff)

lemma spawns_handle: "spawns (handle cfg s e) = spawns s"
  by (cases e) (auto simp: handler_defs Let_def split: promise_state.splits fs_result.splits)

lemma kills_data: "isData e \<Longrightarrow> kills (handle cfg s e) = kills s"
  by (cases e) (auto simp: handler_defs Let_def)

lemma exitObserved_data: "\<forall>e\<in>set evs. isData e \<Longrightarrow> \<not> exitObserved evs"
  by (induction evs) (auto simp: exitObserved_def elim: isData.elims)

lemma timeout_fires:
  assumes "\<forall>e\<in>set evs. isData e"
  shows "promise (runContainerAgent cfg FsOk (evs @ [TimeoutFires])) = Resolved (errorOutput (timeoutMessage cfg))"
    and "kills (runContainerAgent cfg FsOk (evs @ [TimeoutFires])) = [js ''SIGKILL'']"
    and "timeout (runContainerAgent cfg FsOk (evs @ [TimeoutFires])) = Fired"
proof -
  let ?s = "runContainerAgent cfg FsOk evs"
  have a: "timeout ?s = Armed" using assms by (simp add: armed_run)
  with runInv_run[of cfg evs] have p: "promise ?s = Pending" "kills ?s = []"
    by (auto simp: runInv_def)
  show "promise (runContainerAgent cfg FsOk (evs @ [TimeoutFires])) = Resolved (errorOutput (timeoutMessage cfg))"
    using a p by (simp add: run_snoc onTimeout_def resolve_def)
  show "kills (runContainerAgent cfg FsOk (evs @ [TimeoutFires])) = [js ''SIGKILL'']"
    using a p by (simp add: run_snoc onTimeout_def resolve_def)
  show "timeout (runContainerAgent cfg FsOk (evs @ [TimeoutFires])) = Fired"
    using a p by (simp add: run_snoc onTimeout_def resolve_def)
qed


text \<open>
  Claim C10. The promise settles once. If only output has arrived when the timer fires,
  the promise is resolved with the timeout error; a close event handled afterwards,
  whatever its exit code and whatever follows it, leaves that result in place. In
  general a promise that is resolved with a value after some events is resolved with
  the same value after any further events.
\<close>

theorem promise_settles_once:
  assumes "\<forall>e\<in>set before. isData e"
  shows "promise (runContainerAgent cfg FsOk (before @ [TimeoutFires]))
           = Resolved (errorOutput (timeoutMessage cfg))
    \<and> promise (runContainerAgent cfg FsOk (before @ TimeoutFires # Close code logWrite # later))
           = Resolved (errorOutput (timeoutMessage cfg))
    \<and> (\<forall>evs v rest. promise (runContainerAgent cfg FsOk evs) = Resolved v \<longrightarrow>
           promise (runContainerAgent cfg FsOk (evs @ rest)) = Resolved v)"
proof -
  have fired: "promise (runContainerAgent cfg FsOk (before @ [TimeoutFires]))
      = Resolved (errorOutput (timeoutMessage cfg))"
    by (rule timeout_fires(1)[OF assms])
  have stable: "promise (runContainerAgent cfg FsOk evs) = Resolved v \<Longrightarrow>
      promise (runContainerAgent cfg FsOk (evs @ rest)) = Resolved v" for evs v rest
    by (simp add: run_append resolved_foldl)
  have "promise (runContainerAgent cfg FsOk ((before @ [TimeoutFires]) @ Close code logWrite # later))
      = Resolved (errorOutput (timeoutMessage cfg))"
    by (rule stable[OF fired])
  then show ?thesis using fired stable by simp
qed

theorem promise_settles_once_witness:
  "list_all isData [StdoutData (bytesOf (js ''{}''))]
   \<and> promise (runContainerAgent exampleConfig FsOk [StdoutData (bytesOf (js ''{}'')), Close (Some 0) FsOk])
       = Resolved (JObject [])
   \<and> promise (runContainerAgent exampleConfig FsOk racingTrace)
       = Resolved (errorOutput (js ''Agent timed out after 300000ms''))"
proof -
  have h: "\<forall>e\<in>set [StdoutData (bytesOf (js ''{}''))]. isData e" by simp
  have m: "timeoutMessage exampleConfig = js ''Agent timed out after 300000ms''"
    by (simp add: timeoutMessage_def exampleConfig_def showInt_def js_def)
  have p: "promise (runContainerAgent exampleConfig FsOk [StdoutData (bytesOf (js ''{}'')), Close (Some 0) FsOk])
      = Resolved (JObject [])"
    by code_simp
  show ?thesis
    using h p promise_settles_once[OF h, of exampleConfig "Some 0" FsOk "[]"]
    by (simp add: m racingTrace_def)
qed

lemma kills_not_armed: "timeout s \<noteq> Armed \<Longrightarrow> kills (handle cfg s e) = kills s"
  by (cases e) (auto simp: handler_defs Let_def split: promise_state.splits fs_result.splits)

lemma kills_not_armed_foldl:
  "timeout s \<noteq> Armed \<Longrightarrow> kills (foldl (handle cfg) s evs) = kills s"
proof (induction evs arbitrary: s)
  case Nil
  then show ?case by simp
next
  case (Cons e evs)
  then show ?case by (simp add: kills_not_armed not_armed_handle)
qed

lemma spawns_foldl: "spawns (foldl (handle cfg) s evs) = spawns s"
  by (induction evs arbitrary: s) (simp_all add: spawns_handle)

lemma spawns_run: "spawns (runContainerAgent cfg FsOk evs) = 1"
  by (simp add: runContainerAgent_def spawns_foldl executor_def notSpawned_def)

lemma exitObserved_snoc_timeout: "exitObserved (evs @ [TimeoutFires]) = exitObserved evs"
  by (simp add: exitObserved_def)

text \<open>
  Claim C5, as amended. If only output has arrived when the budget ends (no close and no
  error event), the timer callback sends SIGKILL to the child and resolves the promise
  at once with the error result carrying the timeout message; no close event has been
  handled at that moment, so the resolution does not wait for the child's exit to be
  observed. Whatever arrives later, the result stays, no second signal is sent, the
  timer is not started again and the child is not spawned a second time.
\<close>

theorem timeout_kills_and_resolves:
  assumes "\<forall>e\<in>set evs. isData e"
  shows "promise (runContainerAgent cfg FsOk (evs @ [TimeoutFires]))
           = Resolved (errorOutput (timeoutMessage cfg))
    \<and> kills (runContainerAgent cfg FsOk (evs @ [TimeoutFires])) = [js ''SIGKILL'']
    \<and> \<not> exitObserved (evs @ [TimeoutFires])
    \<and> (\<forall>rest. promise (runContainerAgent cfg FsOk (evs @ TimeoutFires # rest))
                   = Resolved (errorOutput (timeoutMessage cfg))
               \<and> kills (runContainerAgent cfg FsOk (evs @ TimeoutFires # rest)) = [js ''SIGKILL'']
               \<and> timeout (runContainerAgent cfg FsOk (evs @ TimeoutFires # rest)) = Fired
               \<and> spawns (runContainerAgent cfg FsOk (evs @ TimeoutFires # rest)) = 1)"
proof -
  let ?t = "runContainerAgent cfg FsOk (evs @ [TimeoutFires])"
  note f = timeout_fires[OF assms, of cfg]
  have na: "timeout ?t \<noteq> Armed" using f(3) by simp
  have later: "promise (runContainerAgent cfg FsOk (evs @ TimeoutFires # rest))
        = Resolved (errorOutput (timeoutMessage cfg))
      \<and> kills (runContainerAgent cfg FsOk (evs @ TimeoutFires # rest)) = [js ''SIGKILL'']
      \<and> timeout (runContainerAgent cfg FsOk (evs @ TimeoutFires # rest)) = Fired
      \<and> spawns (runContainerAgent cfg FsOk (evs @ TimeoutFires # rest)) = 1" for rest
  proof -
    have r: "runContainerAgent cfg FsOk (evs @ TimeoutFires # rest) = foldl (handle cfg) ?t rest"
      by (simp add: runContainerAgent_def)
    show ?thesis
      unfolding r using f na
      by (simp add: resolved_foldl kills_not_armed_foldl not_armed_foldl spawns_foldl
          spawns_run)
  qed
  have "\<not> exitObserved (evs @ [TimeoutFires])"
    using exitObserved_data[OF assms] by (simp add: exitObserved_snoc_timeout)
  then show ?thesis using f later by blast
qed

theorem timeout_kills_and_resolves_witness:
  "list_all isData [StdoutData (bytesOf (js ''working''))]
   \<and> promise (runContainerAgent exampleConfig FsOk [StdoutData (bytesOf (js ''working'')), TimeoutFires])
       = Resolved (errorOutput (js ''Agent timed out after 300000ms''))
   \<and> kills (runContainerAgent exampleConfig FsOk [StdoutData (bytesOf (js ''working'')), TimeoutFires])
       = [js ''SIGKILL'']
   \<and> \<not> exitObserved [StdoutData (bytesOf (js ''working'')), TimeoutFires]
   \<and> spawns (runContainerAgent exampleConfig FsOk
         [StdoutData (bytesOf (js ''working'')), TimeoutFires, Close None FsOk]) = 1"
proof -
  have h: "\<forall>e\<in>set [StdoutData (bytesOf (js ''working''))]. isData e" by simp
  have m: "timeoutMessage exampleConfig = js ''Agent timed out after 300000ms''"
    by (simp add: timeoutMessage_def exampleConfig_def showInt_def js_def)
  show ?thesis
    using h timeout_kills_and_resolves[OF h, of exampleConfig]
    by (simp add: m)
qed

text \<open>
  Claim C5 as stated asks for the process to be confirmed terminated when the invocation
  resolves. In the invocation whose only event is the timeout, the promise is resolved
  with the timeout error and no close event has been handled.
\<close>

theorem timeout_unconfirmed_counterexample:
  "promise (runContainerAgent exampleConfig FsOk [TimeoutFires])
     = Resolved (errorOutput (js ''Agent timed out after 300000ms''))
   \<and> \<not> exitObserved [TimeoutFires]"
proof -
  have m: "timeoutMessage exampleConfig = js ''Agent timed out after 300000ms''"
    by (simp add: timeoutMessage_def exampleConfig_def showInt_def js_def)
  show ?thesis
    by (simp add: runContainerAgent_def executor_def notSpawned_def onTimeout_def resolve_def m
        exitObserved_def)
qed

text \<open>
  Claim C6, as amended. The executor starts the timer before any event can be
  delivered. When the error event of a child that could not be started arrives first,
  its callback cancels the timer and resolves the promise with the error result
  carrying the spawn error message; whatever arrives later, that result stays, the
  timer stays cancelled and no signal is ever sent.
\<close>

theorem spawn_error_resolves:
  "timeout (runContainerAgent cfg FsOk []) = Armed
   \<and> promise (runContainerAgent cfg FsOk (ErrorEvent msg # rest))
       = Resolved (errorOutput (js ''Agent spawn error: '' @ msg))
   \<and> timeout (runContainerAgent cfg FsOk (ErrorEvent msg # rest)) = Cleared
   \<and> kills (runContainerAgent cfg FsOk (ErrorEvent msg # rest)) = []"
proof -
  let ?s = "runContainerAgent cfg FsOk [ErrorEvent msg]"
  have a: "timeout (runContainerAgent cfg FsOk []) = Armed"
    by (simp add: armed_run)
  have p: "promise ?s = Resolved (errorOutput (js ''Agent spawn error: '' @ msg))"
    and t: "timeout ?s = Cleared" and k: "kills ?s = []"
    by (simp_all add: runContainerAgent_def executor_def notSpawned_def onError_def resolve_def
        clearTimeout_def)
  have r: "runContainerAgent cfg FsOk (ErrorEvent msg # rest) = foldl (handle cfg) ?s rest"
    by (simp add: runContainerAgent_def)
  show ?thesis
    using a p t k by (simp add: r resolved_foldl not_armed_foldl kills_not_armed_foldl)
qed

theorem spawn_error_resolves_witness:
  "promise (runContainerAgent exampleConfig FsOk
      [ErrorEvent (js ''spawn node ENOENT''), Close (Some (- 2)) FsOk, TimeoutFires])
     = Resolved (errorOutput (js ''Agent spawn error: spawn node ENOENT''))
   \<and> timeout (runContainerAgent exampleConfig FsOk
      [ErrorEvent (js ''spawn node ENOENT''), Close (Some (- 2)) FsOk, TimeoutFires]) = Cleared
   \<and> kills (runContainerAgent exampleConfig FsOk
      [ErrorEvent (js ''spawn node ENOENT''), Close (Some (- 2)) FsOk, TimeoutFires]) = []"
  using spawn_error_resolves[of exampleConfig "js ''spawn node ENOENT''"
      "[Close (Some (- 2)) FsOk, TimeoutFires]"]
  by (simp add: js_def)

text \<open>
  Claim C6 as stated says that no timer is started when the worker cannot be started.
  Before the error event is delivered the timer is armed; the error callback cancels it.
\<close>

theorem timer_started_counterexample:
  "timeout (runContainerAgent exampleConfig FsOk []) = Armed
   \<and> timeout (runContainerAgent exampleConfig FsOk [ErrorEvent (js ''spawn node ENOENT'')]) = Cleared"
  by (simp add: runContainerAgent_def executor_def notSpawned_def onError_def resolve_def
      clearTimeout_def)

section \<open>The environment and the snapshots\<close>

lemma env_keys_distinct:
  "js ''WORKSPACE_GROUP'' \<noteq> js ''WORKSPACE_GLOBAL''"
  "js ''WORKSPACE_GROUP'' \<noteq> js ''WORKSPACE_IPC''"
  "js ''WORKSPACE_GROUP'' \<noteq> js ''CLAUDE_CONFIG_DIR''"
  "js ''WORKSPACE_GROUP'' \<noteq> js ''WORKSPACE_PROJECT''"
  "js ''WORKSPACE_GLOBAL'' \<noteq> js ''WORKSPACE_IPC''"
  "js ''WORKSPACE_GLOBAL'' \<noteq> js ''CLAUDE_CONFIG_DIR''"
  "js ''WORKSPACE_GLOBAL'' \<noteq> js ''WORKSPACE_PROJECT''"
  "js ''WORKSPACE_IPC'' \<noteq> js ''CLAUDE_CONFIG_DIR''"
  "js ''WORKSPACE_IPC'' \<noteq> js ''WORKSPACE_PROJECT''"
  "js ''CLAUDE_CONFIG_DIR'' \<noteq> js ''WORKSPACE_PROJECT''"
  by (simp_all add: js_def)

text \<open>
  The variables of the environment built for a worker: the four directories, the
  first, third and fourth derived from the group's folder, and \<open>WORKSPACE_PROJECT\<close>,
  which is assigned for the privileged group only and is otherwise whatever the copy of
  the host's own environment holds.
\<close>

lemma buildAgentEnv_variables:
  "snd (buildAgentEnv h cfg grp isMain) (js ''WORKSPACE_GROUP'')
     = Some (path_join [GROUPS_DIR cfg, folder grp])
   \<and> snd (buildAgentEnv h cfg grp isMain) (js ''WORKSPACE_GLOBAL'')
     = Some (path_join [GROUPS_DIR cfg, js ''global''])
   \<and> snd (buildAgentEnv h cfg grp isMain) (js ''WORKSPACE_IPC'')
     = Some (path_join [DATA_DIR cfg, js ''ipc'', folder grp])
   \<and> snd (buildAgentEnv h cfg grp isMain) (js ''CLAUDE_CONFIG_DIR'')
     = Some (path_join [DATA_DIR cfg, js ''sessions'', folder grp, js ''.claude''])
   \<and> snd (buildAgentEnv h cfg grp isMain) (js ''WORKSPACE_PROJECT'')
     = (if isMain then Some (cwd h) else process_env h (js ''WORKSPACE_PROJECT''))"
  using env_keys_distinct
  by (simp add: buildAgentEnv_def Let_def)

text \<open>
  Claim C9. The environment of a worker is to hold a project root (\<open>WORKSPACE_PROJECT\<close>)
  if and only if the group is the privileged one. The code assigns the variable for the
  privileged group only, but it starts from a copy of the host's own environment and
  never removes the variable from it. On a host whose environment defines
  \<open>WORKSPACE_PROJECT\<close> as \<open>/srv\<close>, the environment built for the group \<open>family\<close>, which is
  not privileged, holds \<open>WORKSPACE_PROJECT = /srv\<close>; built for the same group as the
  privileged one it holds the project root \<open>/app\<close>, and on a host that does not define
  the variable the environment of the group that is not privileged does not hold it.
\<close>

theorem inherited_project_root_leaks:
  "process_env inheritingHost (js ''WORKSPACE_PROJECT'') = Some (js ''/srv'')
   \<and> snd (buildAgentEnv inheritingHost exampleConfig familyGroup False)
         (js ''WORKSPACE_PROJECT'') = Some (js ''/srv'')
   \<and> snd (buildAgentEnv inheritingHost exampleConfig familyGroup True)
         (js ''WORKSPACE_PROJECT'') = Some (js ''/app'')
   \<and> snd (buildAgentEnv exampleHost exampleConfig familyGroup False)
         (js ''WORKSPACE_PROJECT'') = None"
  using env_keys_distinct
  by (simp add: buildAgentEnv_def Let_def inheritingHost_def exampleHost_def js_def)

text \<open>
  Claim C8. For the privileged group the tasks snapshot is the whole input list and the
  groups snapshot holds every input group. For any other group the tasks snapshot is
  the input list filtered, in order, to the tasks whose \<open>groupFolder\<close> is the calling
  folder (a task is in it exactly if it is an input task with that folder), and the
  list of groups is empty.
\<close>

theorem snapshots_by_privilege:
  "writeTasksSnapshot cfg f True tasks
     = [MkdirSync (path_join [DATA_DIR cfg, js ''ipc'', f]),
        WriteFileSync (path_join [path_join [DATA_DIR cfg, js ''ipc'', f], js ''current_tasks.json''])
          tasks]
   \<and> writeTasksSnapshot cfg f False tasks
     = [MkdirSync (path_join [DATA_DIR cfg, js ''ipc'', f]),
        WriteFileSync (path_join [path_join [DATA_DIR cfg, js ''ipc'', f], js ''current_tasks.json''])
          (filter (\<lambda>t. groupFolder t = f) tasks)]
   \<and> (\<forall>t. (t \<in> set (filter (\<lambda>t. groupFolder t = f) tasks)) = (t \<in> set tasks \<and> groupFolder t = f))
   \<and> writeGroupsSnapshot cfg now f True groups registeredJids
     = [MkdirSync (path_join [DATA_DIR cfg, js ''ipc'', f]),
        WriteFileSync (path_join [path_join [DATA_DIR cfg, js ''ipc'', f], js ''available_groups.json''])
          (AvailableGroups groups now)]
   \<and> writeGroupsSnapshot cfg now f False groups registeredJids
     = [MkdirSync (path_join [DATA_DIR cfg, js ''ipc'', f]),
        WriteFileSync (path_join [path_join [DATA_DIR cfg, js ''ipc'', f], js ''available_groups.json''])
          (AvailableGroups [] now)]"
  by (simp add: writeTasksSnapshot_def writeGroupsSnapshot_def Let_def)

lemma example_paths:
  "path_join [DATA_DIR exampleConfig, js ''ipc'', js ''family''] = js ''/app/data/ipc/family''"
  "path_join [js ''/app/data/ipc/family'', js ''current_tasks.json'']
     = js ''/app/data/ipc/family/current_tasks.json''"
  "path_join [js ''/app/data/ipc/family'', js ''available_groups.json'']
     = js ''/app/data/ipc/family/available_groups.json''"
  by code_simp+

theorem snapshots_by_privilege_witness:
  "(writeTasksSnapshot exampleConfig (js ''family'') True [familyTask, mainTask])
     = [MkdirSync (js ''/app/data/ipc/family''),
        WriteFileSync (js ''/app/data/ipc/family/current_tasks.json'')
          [familyTask, mainTask]]
   \<and> (writeTasksSnapshot exampleConfig (js ''family'') False [familyTask, mainTask])
     = [MkdirSync (js ''/app/data/ipc/family''),
        WriteFileSync (js ''/app/data/ipc/family/current_tasks.json'') [familyTask]]
   \<and> (writeGroupsSnapshot exampleConfig (js ''2026-01-01T00:00:00.000Z'') (js ''family'') False
        [js ''120363@g.us''] {})
     = [MkdirSync (js ''/app/data/ipc/family''),
        WriteFileSync (js ''/app/data/ipc/family/available_groups.json'')
          (AvailableGroups [] (js ''2026-01-01T00:00:00.000Z''))]"
proof -
  have g: "groupFolder familyTask = js ''family''" "groupFolder mainTask \<noteq> js ''family''"
    by (simp_all add: familyTask_def mainTask_def js_def)
  show ?thesis
    using snapshots_by_privilege[of exampleConfig "js ''family''" "[familyTask, mainTask]"
        "js ''2026-01-01T00:00:00.000Z''" "[js ''120363@g.us'']" "{}"]
    by (simp add: example_paths g)
qed

lemma snapshots_never_rename:
  "\<not> list_ex isRename (writeTasksSnapshot cfg f isMain tasks)"
  "\<not> list_ex isRename (writeGroupsSnapshot cfg now f isMain groups registeredJids)"
  by (simp_all add: writeTasksSnapshot_def writeGroupsSnapshot_def Let_def)

text \<open>
  Claim C7 asks for a write to a temporary name followed by a rename. Both snapshot
  functions issue two calls: the creation of the IPC directory and one \<open>writeFileSync\<close>
  to the final name. No call renames anything.
\<close>

theorem snapshot_written_in_place:
  "(writeTasksSnapshot exampleConfig (js ''family'') True [familyTask])
     = [MkdirSync (js ''/app/data/ipc/family''),
        WriteFileSync (js ''/app/data/ipc/family/current_tasks.json'') [familyTask]]
   \<and> \<not> list_ex isRename (writeTasksSnapshot exampleConfig (js ''family'') True [familyTask])
   \<and> (writeGroupsSnapshot exampleConfig (js ''2026-01-01T00:00:00.000Z'') (js ''family'') True
        [js ''120363@g.us''] {})
     = [MkdirSync (js ''/app/data/ipc/family''),
        WriteFileSync (js ''/app/data/ipc/family/available_groups.json'')
          (AvailableGroups [js ''120363@g.us''] (js ''2026-01-01T00:00:00.000Z''))]
   \<and> \<not> list_ex isRename (writeGroupsSnapshot exampleConfig (js ''2026-01-01T00:00:00.000Z'')
        (js ''family'') True [js ''120363@g.us''] {})"
  by (simp add: writeTasksSnapshot_def writeGroupsSnapshot_def Let_def example_paths)

section \<open>Markers and lines\<close>

lemma find_map_option: "find P (map f xs) = map_option f (find (P \<circ> f) xs)"
  by (induction xs) simp_all

lemma find_upt_Suc:
  "find P [0..<Suc (Suc n)] = (if P 0 then Some 0 else map_option Suc (find (P \<circ> Suc) [0..<Suc n]))"
proof -
  have "[0..<Suc (Suc n)] = 0 # map Suc [0..<Suc n]"
    by (simp add: map_Suc_upt upt_conv_Cons del: upt_Suc)
  then show ?thesis
    by (simp add: find_map_option del: upt_Suc)
qed

lemma indexOfFrom_find:
  "indexOfFrom needle hay i =
     (case find (occursAt needle hay) [0..<Suc (length hay)] of None \<Rightarrow> - 1 | Some k \<Rightarrow> int (i + k))"
proof (induction hay arbitrary: i)
  case Nil
  then show ?case by (auto simp: occursAt_def)
next
  case (Cons c cs)
  have sh: "occursAt needle (c # cs) \<circ> Suc = occursAt needle cs"
    by (auto simp: occursAt_def fun_eq_iff)
  show ?case
    using Cons[of "Suc i"]
    by (simp add: find_upt_Suc[of _ "length cs"] sh del: upt_Suc split: option.splits)
      (simp_all add: occursAt_def)
qed

lemma indexOf_firstOccurrence:
  "indexOf hay needle = (case firstOccurrence needle hay of None \<Rightarrow> - 1 | Some k \<Rightarrow> int k)"
  by (simp add: indexOf_def firstOccurrence_def indexOfFrom_find del: upt_Suc split: option.splits)

lemma firstOccurrence_Some:
  "firstOccurrence needle hay = Some k \<Longrightarrow>
     occursAt needle hay k \<and> (\<forall>j<k. \<not> occursAt needle hay j) \<and> k + length needle \<le> length hay"
proof -
  assume a: "firstOccurrence needle hay = Some k"
  then obtain i where i: "i < length [0..<Suc (length hay)]" "occursAt needle hay ([0..<Suc (length hay)] ! i)"
    "k = [0..<Suc (length hay)] ! i" "\<forall>j<i. \<not> occursAt needle hay ([0..<Suc (length hay)] ! j)"
    unfolding firstOccurrence_def find_Some_iff by blast
  then have ki: "k = i" and kl: "k \<le> length hay" by (simp_all add: nth_upt del: upt_Suc)
  have occ: "occursAt needle hay k" using i ki by (simp add: nth_upt del: upt_Suc)
  have least: "\<forall>j<k. \<not> occursAt needle hay j"
  proof (intro allI impI)
    fix j assume "j < k"
    then have "j < i" "j < Suc (length hay)" using ki kl by simp_all
    then show "\<not> occursAt needle hay j" using i(4) by (auto simp: nth_upt simp del: upt_Suc)
  qed
  from occ have "length needle \<le> length (drop k hay)"
    unfolding occursAt_def by (rule prefix_length_le)
  then have "k + length needle \<le> length hay" using kl by simp
  with occ least show ?thesis by simp
qed

lemma firstOccurrence_None:
  "firstOccurrence needle hay = None \<Longrightarrow> \<not> occursAt needle hay k"
proof
  assume a: "firstOccurrence needle hay = None" and occ: "occursAt needle hay k"
  show False
  proof (cases "k \<le> length hay")
    case True
    then have "k \<in> set [0..<Suc (length hay)]" by (simp del: upt_Suc)
    with a occ show False unfolding firstOccurrence_def find_None_iff by blast
  next
    case False
    with occ have "needle = []" by (simp add: occursAt_def)
    then have "occursAt needle hay 0" by (simp add: occursAt_def)
    moreover have "0 \<in> set [0..<Suc (length hay)]" by (simp del: upt_Suc)
    ultimately show False using a unfolding firstOccurrence_def find_None_iff by blast
  qed
qed

lemma indexOfFrom_length: "indexOfFrom needle hay i \<noteq> - 1 \<Longrightarrow> length needle \<le> length hay"
proof (induction hay arbitrary: i)
  case Nil
  then show ?case by (simp split: if_splits)
next
  case (Cons c cs)
  show ?case
  proof (cases "prefix needle (c # cs)")
    case True
    then show ?thesis by (rule prefix_length_le)
  next
    case False
    with Cons.prems have "indexOfFrom needle cs (Suc i) \<noteq> - 1" by simp
    from Cons.IH[OF this] show ?thesis by simp
  qed
qed

lemma prefix_append_short:
  assumes "prefix xs (ys @ zs)" "length xs \<le> length ys"
  shows "prefix xs ys"
  using assms by (auto simp: prefix_append)

lemma indexOfFrom_append:
  "indexOfFrom needle a i \<noteq> - 1 \<Longrightarrow> indexOfFrom needle (a @ b) i = indexOfFrom needle a i"
proof (induction a arbitrary: i)
  case Nil
  then have "needle = []" by (simp split: if_splits)
  then show ?case by (cases b) simp_all
next
  case (Cons c cs)
  show ?case
  proof (cases "prefix needle (c # cs)")
    case True
    then have "prefix needle ((c # cs) @ b)" by (rule prefix_prefix)
    with True show ?thesis by simp
  next
    case False
    with Cons.prems have ne: "indexOfFrom needle cs (Suc i) \<noteq> - 1" by simp
    then have "length needle \<le> length (c # cs)" using indexOfFrom_length[OF ne] by simp
    with False have "\<not> prefix needle ((c # cs) @ b)"
      using prefix_append_short by blast
    with False Cons.IH[OF ne] show ?thesis by simp
  qed
qed

lemma indexOf_append:
  "indexOf a needle = int k \<Longrightarrow> indexOf (a @ b) needle = int k"
  unfolding indexOf_def using indexOfFrom_append[of needle a 0 b] by simp

lemma slice_middle:
  "slice (a @ m @ b) (int (length a)) (int (length a + length m)) = m"
  by (simp add: slice_def Let_def min_def)

lemma START_length: "length OUTPUT_START_MARKER = 27"
  by (simp add: OUTPUT_START_MARKER_def js_def)

lemma jsonLine_between:
  assumes "indexOf (pre @ OUTPUT_START_MARKER) OUTPUT_START_MARKER = int (length pre)"
    and "indexOf (pre @ OUTPUT_START_MARKER @ j @ OUTPUT_END_MARKER) OUTPUT_END_MARKER
          = int (length pre + length OUTPUT_START_MARKER + length j)"
  shows "jsonLine (pre @ OUTPUT_START_MARKER @ j @ OUTPUT_END_MARKER @ post) = trim j"
proof -
  let ?out = "pre @ OUTPUT_START_MARKER @ j @ OUTPUT_END_MARKER @ post"
  have s: "indexOf ?out OUTPUT_START_MARKER = int (length pre)"
    using indexOf_append[OF assms(1), of "j @ OUTPUT_END_MARKER @ post"] by simp
  have e: "indexOf ?out OUTPUT_END_MARKER = int (length pre + length OUTPUT_START_MARKER + length j)"
    using indexOf_append[OF assms(2), of post] by simp
  have sl: "slice ?out (int (length pre) + int (length OUTPUT_START_MARKER))
      (int (length pre + length OUTPUT_START_MARKER + length j)) = j"
    using slice_middle[of "pre @ OUTPUT_START_MARKER" j "OUTPUT_END_MARKER @ post"] by simp
  show ?thesis
    unfolding jsonLine_def s e Let_def using sl by (simp add: START_length)
qed

lemma isContainerOutput_not_null: "isContainerOutput v \<Longrightarrow> v \<noteq> JNull"
  by (auto simp: isContainerOutput_def getProp_def)

lemma splitOn_nonempty [simp]: "splitOn sep s \<noteq> []"
  by (induction s) (auto split: list.splits)

lemma splitOn_append_sep: "splitOn sep (x @ sep # y) = splitOn sep x @ splitOn sep y"
  by (induction x) (auto split: list.splits)

lemma splitOn_no_sep: "sep \<notin> set s \<Longrightarrow> splitOn sep s = [s]"
  by (induction s) auto

lemma splitOn_set: "l \<in> set (splitOn sep s) \<Longrightarrow> set l \<subseteq> set s"
proof (induction s arbitrary: l)
  case Nil
  then show ?case by simp
next
  case (Cons c cs)
  show ?case
  proof (cases "c = sep")
    case True
    with Cons show ?thesis by auto
  next
    case False
    obtain m ms where ms: "splitOn sep cs = m # ms"
      by (cases "splitOn sep cs") simp_all
    with False Cons.prems have "l = c # m \<or> l \<in> set ms" by simp
    then show ?thesis
    proof
      assume "l = c # m"
      moreover have "set m \<subseteq> set cs" using Cons.IH[of m] ms by simp
      ultimately show ?thesis by auto
    next
      assume "l \<in> set ms"
      then have "set l \<subseteq> set cs" using Cons.IH[of l] ms by simp
      then show ?thesis by auto
    qed
  qed
qed

lemma last_line_decomp:
  obtains p where "s = p @ last (splitOn sep s)" "p = [] \<or> (\<exists>q. p = q @ [sep])"
    "sep \<notin> set (last (splitOn sep s))"
proof -
  let ?l = "rev (takeWhile (\<lambda>c. c \<noteq> sep) (rev s))"
  let ?p = "rev (dropWhile (\<lambda>c. c \<noteq> sep) (rev s))"
  have s: "s = ?p @ ?l"
    by (metis rev_append rev_rev_ident takeWhile_dropWhile_id)
  have nl: "sep \<notin> set ?l"
    by (auto dest: set_takeWhileD)
  have pe: "?p = [] \<or> (\<exists>q. ?p = q @ [sep])"
  proof (cases "dropWhile (\<lambda>c. c \<noteq> sep) (rev s)")
    case Nil
    then show ?thesis by simp
  next
    case (Cons d ds)
    then have "d = sep" using hd_dropWhile[of "\<lambda>c. c \<noteq> sep" "rev s"] by simp
    with Cons show ?thesis by simp
  qed
  have "last (splitOn sep s) = ?l"
  proof (cases "?p = []")
    case True
    with s have "s = ?l" by simp
    with nl have "splitOn sep s = [?l]" using splitOn_no_sep[of sep s] by simp
    then show ?thesis by simp
  next
    case False
    with pe obtain q where q: "?p = q @ [sep]" by blast
    with s have "s = q @ sep # ?l" by simp
    then have "splitOn sep s = splitOn sep q @ splitOn sep ?l"
      using splitOn_append_sep[of sep q ?l] by simp
    then show ?thesis using splitOn_no_sep[OF nl] by simp
  qed
  with s nl pe show ?thesis using that by metis
qed

lemma trim_ws_prefix: "list_all isWhiteSpace u \<Longrightarrow> trim (u @ s) = trim s"
  by (simp add: trim_def list_all_iff)

lemma trim_all_ws: "list_all isWhiteSpace s \<Longrightarrow> trim s = []"
proof -
  assume "list_all isWhiteSpace s"
  then have d: "dropWhile isWhiteSpace s = []"
    by (simp add: list_all_iff)
  show ?thesis unfolding trim_def d by simp
qed

lemma trim_ws_suffix: "list_all isWhiteSpace w \<Longrightarrow> trim (s @ w) = trim s"
proof (cases "list_all isWhiteSpace s")
  case True
  assume "list_all isWhiteSpace w"
  with True show ?thesis by (simp add: trim_all_ws)
next
  case False
  assume w: "list_all isWhiteSpace w"
  from False obtain x where "x \<in> set s" "\<not> isWhiteSpace x" by (auto simp: list_all_iff)
  then have d: "dropWhile isWhiteSpace (s @ w) = dropWhile isWhiteSpace s @ w"
    by (rule dropWhile_append1)
  have "dropWhile isWhiteSpace (rev w @ rev (dropWhile isWhiteSpace s))
      = dropWhile isWhiteSpace (rev (dropWhile isWhiteSpace s))"
    using w by (intro dropWhile_append2) (simp add: list_all_iff)
  with d show ?thesis by (simp add: trim_def)
qed

lemma trim_decomp:
  obtains a b where "s = a @ trim s @ b" "list_all isWhiteSpace a" "list_all isWhiteSpace b"
proof -
  let ?a = "takeWhile isWhiteSpace s"
  let ?d = "dropWhile isWhiteSpace s"
  let ?b = "rev (takeWhile isWhiteSpace (rev ?d))"
  have "rev ?d = takeWhile isWhiteSpace (rev ?d) @ dropWhile isWhiteSpace (rev ?d)" by simp
  then have "?d = trim s @ ?b"
    unfolding trim_def by (metis rev_append rev_rev_ident)
  then have "s = ?a @ trim s @ ?b"
    by (metis takeWhile_dropWhile_id)
  moreover have "list_all isWhiteSpace ?a" "list_all isWhiteSpace ?b"
    by (auto simp: list_all_iff dest: set_takeWhileD)
  ultimately show ?thesis using that by blast
qed

lemma trim_last: "trim s \<noteq> [] \<Longrightarrow> \<not> isWhiteSpace (last (trim s))"
proof -
  assume "trim s \<noteq> []"
  then have ne: "dropWhile isWhiteSpace (rev (dropWhile isWhiteSpace s)) \<noteq> []"
    by (simp add: trim_def)
  from hd_dropWhile[OF ne] show ?thesis
    using ne by (simp add: trim_def last_rev)
qed

lemma isWhiteSpace_LF [simp]: "isWhiteSpace LF"
  by (simp add: isWhiteSpace_def LF_def)

lemma blank_lines: "list_all isWhiteSpace r \<Longrightarrow> filter (\<lambda>l. \<not> isBlank l) (splitOn sep r) = []"
proof -
  assume r: "list_all isWhiteSpace r"
  have "isBlank l" if "l \<in> set (splitOn sep r)" for l
    using splitOn_set[OF that] r by (auto simp: isBlank_def list_all_iff)
  then show ?thesis by (simp add: filter_empty_conv)
qed

lemma lastNonEmptyLine_blank: "list_all isWhiteSpace out \<Longrightarrow> lastNonEmptyLine out = None"
  by (simp add: lastNonEmptyLine_def blank_lines)

lemma lastNonEmptyLine_line:
  assumes "LF \<notin> set m" "\<not> isBlank m"
    and "pre = [] \<or> (\<exists>q. pre = q @ [LF])"
    and "post = [] \<or> (\<exists>r. post = LF # r)"
    and "list_all isWhiteSpace post"
  shows "lastNonEmptyLine (pre @ m @ post) = Some m"
proof -
  have tail: "\<exists>ls. splitOn LF (m @ post) = m # ls \<and> filter (\<lambda>l. \<not> isBlank l) ls = []"
  proof (cases "post = []")
    case True
    then show ?thesis using splitOn_no_sep[OF assms(1)] by simp
  next
    case False
    with assms(4) obtain r where r: "post = LF # r" by blast
    with assms(5) have "list_all isWhiteSpace r" by simp
    then have "filter (\<lambda>l. \<not> isBlank l) (splitOn LF r) = []" by (rule blank_lines)
    moreover have "splitOn LF (m @ post) = m # splitOn LF r"
      using r splitOn_append_sep[of LF m r] splitOn_no_sep[OF assms(1)] by simp
    ultimately show ?thesis by blast
  qed
  then obtain ls where ls: "splitOn LF (m @ post) = m # ls" "filter (\<lambda>l. \<not> isBlank l) ls = []"
    by blast
  have "\<exists>hs. splitOn LF (pre @ m @ post) = hs @ m # ls"
  proof (cases "pre = []")
    case True
    with ls show ?thesis by simp
  next
    case False
    with assms(3) obtain q where "pre = q @ [LF]" by blast
    then have "splitOn LF (pre @ m @ post) = splitOn LF q @ m # ls"
      using splitOn_append_sep[of LF q "m @ post"] ls by simp
    then show ?thesis by blast
  qed
  then obtain hs where "splitOn LF (pre @ m @ post) = hs @ m # ls" by blast
  then have "filter (\<lambda>l. \<not> isBlank l) (splitOn LF (pre @ m @ post))
      = filter (\<lambda>l. \<not> isBlank l) hs @ [m]"
    using ls(2) assms(2) by simp
  then show ?thesis by (simp add: lastNonEmptyLine_def)
qed

lemma first_line_decomp:
  obtains b1 post where "b = b1 @ post" "sep \<notin> set b1" "post = [] \<or> (\<exists>r. post = sep # r)"
proof -
  let ?b1 = "takeWhile (\<lambda>c. c \<noteq> sep) b"
  let ?post = "dropWhile (\<lambda>c. c \<noteq> sep) b"
  have "b = ?b1 @ ?post" by simp
  moreover have "sep \<notin> set ?b1" by (auto dest: set_takeWhileD)
  moreover have "?post = [] \<or> (\<exists>r. ?post = sep # r)"
  proof (cases ?post)
    case Nil
    then show ?thesis by simp
  next
    case (Cons d ds)
    then have "d = sep" using hd_dropWhile[of "\<lambda>c. c \<noteq> sep" b] by simp
    with Cons show ?thesis by simp
  qed
  ultimately show ?thesis using that by blast
qed

lemma last_line_is_last_nonempty:
  "(case lastNonEmptyLine out of
      None \<Rightarrow> last (splitOn LF (trim out)) = []
    | Some l \<Rightarrow> last (splitOn LF (trim out)) \<noteq> [] \<and> trim (last (splitOn LF (trim out))) = trim l)"
proof (cases "trim out = []")
  case True
  obtain a b where ab: "out = a @ trim out @ b" "list_all isWhiteSpace a" "list_all isWhiteSpace b"
    by (rule trim_decomp)
  with True have "list_all isWhiteSpace out" by (metis append_Nil list_all_append)
  then have "lastNonEmptyLine out = None" by (rule lastNonEmptyLine_blank)
  with True show ?thesis by simp
next
  case False
  let ?t = "trim out"
  let ?L = "last (splitOn LF ?t)"
  obtain a b where ab: "out = a @ ?t @ b" "list_all isWhiteSpace a" "list_all isWhiteSpace b"
    by (rule trim_decomp)
  obtain p where p: "?t = p @ ?L" "p = [] \<or> (\<exists>q. p = q @ [LF])" "LF \<notin> set ?L"
    by (rule last_line_decomp)
  have nw: "\<not> isWhiteSpace (last ?t)" by (rule trim_last[OF False])
  have Lne: "?L \<noteq> []"
  proof
    assume e: "?L = []"
    with p(1) False have "p \<noteq> []" by auto
    with p(2) obtain q where "p = q @ [LF]" by blast
    with p(1) e have "last ?t = LF" by simp
    with nw show False by simp
  qed
  then have "last ?L = last ?t" using p(1) by (metis last_appendR)
  with nw Lne have Lnb: "\<exists>c\<in>set ?L. \<not> isWhiteSpace c" using last_in_set by metis
  obtain b1 post where b: "b = b1 @ post" "LF \<notin> set b1" "post = [] \<or> (\<exists>r. post = LF # r)"
    by (rule first_line_decomp)
  from ab(3) b(1) have wb1: "list_all isWhiteSpace b1" and wpost: "list_all isWhiteSpace post"
    by simp_all
  show ?thesis
  proof (cases "p = []")
    case True
    obtain a0 where a0: "a = a0 @ last (splitOn LF a)" "a0 = [] \<or> (\<exists>q. a0 = q @ [LF])"
      "LF \<notin> set (last (splitOn LF a))"
      by (rule last_line_decomp)
    let ?a1 = "last (splitOn LF a)"
    let ?m = "?a1 @ ?L @ b1"
    from ab(2) a0(1) have wa1: "list_all isWhiteSpace ?a1" by (metis list_all_append)
    have out: "out = a0 @ ?m @ post" using ab(1) a0(1) p(1) True b(1) by (metis append.assoc append_Nil)
    have m1: "LF \<notin> set ?m" using a0(3) p(3) b(2) by simp
    have m2: "\<not> isBlank ?m" using Lnb by (auto simp: isBlank_def list_all_iff)
    have "lastNonEmptyLine (a0 @ ?m @ post) = Some ?m"
      by (rule lastNonEmptyLine_line[OF m1 m2 a0(2) b(3) wpost])
    then have l: "lastNonEmptyLine out = Some ?m" using out by simp
    have "trim ?m = trim ?L"
      using trim_ws_prefix[OF wa1, of "?L @ b1"] trim_ws_suffix[OF wb1, of ?L] by simp
    with l Lne show ?thesis by simp
  next
    case False
    let ?m = "?L @ b1"
    have pre: "a @ p = [] \<or> (\<exists>q. a @ p = q @ [LF])"
      using False p(2) by (metis append.assoc)
    have out: "out = (a @ p) @ ?m @ post" using ab(1) p(1) b(1) by (metis append.assoc)
    have m1: "LF \<notin> set ?m" using p(3) b(2) by simp
    have m2: "\<not> isBlank ?m" using Lnb by (auto simp: isBlank_def list_all_iff)
    have "lastNonEmptyLine ((a @ p) @ ?m @ post) = Some ?m"
      by (rule lastNonEmptyLine_line[OF m1 m2 pre b(3) wpost])
    then have l: "lastNonEmptyLine out = Some ?m" using out by simp
    have "trim ?m = trim ?L" by (rule trim_ws_suffix[OF wb1])
    with l Lne show ?thesis by simp
  qed
qed

section \<open>What the promise resolves with\<close>

lemma isErrorOutput_errorOutput [simp]: "isErrorOutput (errorOutput msg) = (msg \<noteq> [])"
  by (simp add: isErrorOutput_def errorOutput_def)

lemma js_Cons_nonempty [simp]: "js (c # cs) \<noteq> []"
  by (simp add: js_def)

lemma parse_failure_is_error:
  "JSON_parse (jsonLine out) = Inl msg \<Longrightarrow>
     parseOutput out = errorOutput (js ''Failed to parse agent output: '' @ msg)"
  "JSON_parse (jsonLine out) = Inr JNull \<Longrightarrow>
     parseOutput out = errorOutput (js ''Failed to parse agent output: '' @ typeErrorMessage)"
  "JSON_parse (jsonLine out) = Inr v \<Longrightarrow> v \<noteq> JNull \<Longrightarrow> parseOutput out = v"
  by (cases v; simp add: parseOutput_def parseFailure_def)+

lemma settleInv_init: "settleInv (executor notSpawned)"
  by (simp add: settleInv_def executor_def notSpawned_def)

lemma settleInv_handle:
  assumes "settleInv s" "\<not> escapes e"
  shows "settleInv (handle cfg s e)"
proof (cases e)
  case (Close code lw)
  with assms have lw: "lw = FsOk" by (cases lw) auto
  with assms Close show ?thesis
    by (auto simp: settleInv_def onClose_def resolve_def clearTimeout_def Let_def
        split: promise_state.splits)
qed (use assms in \<open>auto simp: settleInv_def handler_defs Let_def split: promise_state.splits\<close>)

lemma settleInv_foldl:
  "settleInv s \<Longrightarrow> \<forall>e\<in>set evs. \<not> escapes e \<Longrightarrow> settleInv (foldl (handle cfg) s evs)"
  by (induction evs arbitrary: s) (simp_all add: settleInv_handle)

lemma settleInv_run:
  "\<forall>e\<in>set evs. \<not> escapes e \<Longrightarrow> settleInv (runContainerAgent cfg FsOk evs)"
  by (simp add: runContainerAgent_def settleInv_foldl settleInv_init)

lemma pending_after_data:
  assumes "\<forall>e\<in>set before. isData e"
  shows "timeout (runContainerAgent cfg FsOk before) = Armed"
    and "promise (runContainerAgent cfg FsOk before) = Pending"
proof -
  show a: "timeout (runContainerAgent cfg FsOk before) = Armed"
    using assms by (simp add: armed_run)
  with runInv_run[of cfg before] show "promise (runContainerAgent cfg FsOk before) = Pending"
    by (auto simp: runInv_def)
qed

lemma close_after_data:
  assumes "\<forall>e\<in>set before. isData e"
  shows "promise (runContainerAgent cfg FsOk (before @ [Close code FsOk]))
     = Resolved (if code \<noteq> Some 0
                 then errorOutput (exitMessage code (stderr (runContainerAgent cfg FsOk before)))
                 else parseOutput (stdout (runContainerAgent cfg FsOk before)))"
  using pending_after_data[OF assms, of cfg]
  by (simp add: run_snoc onClose_def resolve_def clearTimeout_def Let_def)

lemma error_after_data:
  assumes "\<forall>e\<in>set before. isData e"
  shows "promise (runContainerAgent cfg FsOk (before @ [ErrorEvent msg]))
     = Resolved (errorOutput (js ''Agent spawn error: '' @ msg))"
  using pending_after_data[OF assms, of cfg]
  by (simp add: run_snoc onError_def resolve_def clearTimeout_def)

lemma settled_stays:
  "promise (runContainerAgent cfg FsOk (before @ [e])) = Resolved v \<Longrightarrow>
     promise (runContainerAgent cfg FsOk (before @ e # rest)) = Resolved v"
  using resolved_foldl[of "runContainerAgent cfg FsOk (before @ [e])" v cfg rest]
    run_append[of cfg "before @ [e]" rest]
  by simp

lemma first_other_event:
  assumes "\<not> (\<forall>e\<in>set evs. isData e)"
  shows "\<exists>before e rest. evs = before @ e # rest \<and> (\<forall>d\<in>set before. isData d) \<and> \<not> isData e"
proof -
  from assms have "\<exists>e\<in>set evs. \<not> isData e" by simp
  from split_list_first_prop[OF this]
  obtain before e rest where "evs = before @ e # rest" "\<not> isData e" "\<forall>d\<in>set before. \<not> \<not> isData d"
    by blast
  then show ?thesis by auto
qed

text \<open>
  The exceptions nobody catches. A directory creation that throws before the promise
  exists rejects the promise. A log write that throws ends the close callback after it
  has cancelled the timer and before it resolves: the exception is uncaught and the
  promise is still pending. An error of the child's standard input has no listener: it
  is uncaught, whatever happened before.
\<close>

lemma mkdir_failure_rejects: "promise (runContainerAgent cfg (FsThrows e) evs) = Rejected e"
  by (simp add: runContainerAgent_def)

lemma log_failure_leaves_pending:
  assumes "\<forall>e\<in>set evs. isData e"
  shows "promise (runContainerAgent cfg FsOk (evs @ [Close code (FsThrows e)])) = Pending
    \<and> uncaught (runContainerAgent cfg FsOk (evs @ [Close code (FsThrows e)])) = Some e
    \<and> timeout (runContainerAgent cfg FsOk (evs @ [Close code (FsThrows e)])) = Cleared"
  using pending_after_data[OF assms, of cfg]
  by (simp add: run_snoc onClose_def clearTimeout_def Let_def)

lemma stdin_failure_uncaught:
  "uncaught (runContainerAgent cfg FsOk (evs @ [StdinError e])) = Some e"
  by (simp add: run_snoc onStdinError_def)

text \<open>
  Claim C1, as amended. Leave aside the exceptions nobody catches (a directory creation
  before the promise, which rejects it; the log write of the close callback; an error
  of the write to the worker's standard input). In every invocation that was started
  and in which neither a log write throws nor the standard input of the worker fails,
  no exception escapes and the promise is never rejected; it is pending exactly as long
  as nothing but output has arrived, and the first event that is not output settles it
  for good, whatever comes after it:
  \<^item> the timeout, with the error result carrying the timeout message;
  \<^item> a spawn error, with the error result carrying \<open>Agent spawn error:\<close> and its message;
  \<^item> a close with an exit code other than zero, with the error result carrying the code
    and the end of the standard error captured until then;
  \<^item> a close with exit code zero, with what the \<open>try\<close> block makes of the standard
    output captured until then: an error result carrying \<open>Failed to parse agent output:\<close>
    and the message of the exception when the extracted text does not parse, or when it
    parses to \<open>null\<close>; and otherwise the value that \<open>JSON.parse\<close> returned, passed on
    without any check of its shape.

  Each of these error results has status \<open>error\<close>, result \<open>null\<close> and a message that is
  not empty.
\<close>

theorem runContainerAgent_resolves:
  assumes "\<forall>e\<in>set evs. \<not> escapes e"
  shows "uncaught (runContainerAgent cfg FsOk evs) = None
    \<and> (\<forall>m. promise (runContainerAgent cfg FsOk evs) \<noteq> Rejected m)
    \<and> (promise (runContainerAgent cfg FsOk evs) = Pending) = (\<forall>e\<in>set evs. isData e)
    \<and> (\<not> (\<forall>e\<in>set evs. isData e) \<longrightarrow>
          (\<exists>before e rest. evs = before @ e # rest \<and> (\<forall>d\<in>set before. isData d) \<and> \<not> isData e))
    \<and> (\<forall>before e rest. evs = before @ e # rest \<and> (\<forall>d\<in>set before. isData d) \<longrightarrow>
          (e = TimeoutFires \<longrightarrow>
             promise (runContainerAgent cfg FsOk evs) = Resolved (errorOutput (timeoutMessage cfg)))
          \<and> (\<forall>msg. e = ErrorEvent msg \<longrightarrow>
                promise (runContainerAgent cfg FsOk evs)
                  = Resolved (errorOutput (js ''Agent spawn error: '' @ msg)))
          \<and> (\<forall>code. e = Close code FsOk \<and> code \<noteq> Some 0 \<longrightarrow>
                promise (runContainerAgent cfg FsOk evs)
                  = Resolved (errorOutput
                      (exitMessage code (stderr (runContainerAgent cfg FsOk before)))))
          \<and> (e = Close (Some 0) FsOk \<longrightarrow>
                promise (runContainerAgent cfg FsOk evs)
                  = Resolved (parseOutput (stdout (runContainerAgent cfg FsOk before)))))
    \<and> isErrorOutput (errorOutput (timeoutMessage cfg))
    \<and> (\<forall>msg. isErrorOutput (errorOutput (js ''Agent spawn error: '' @ msg)))
    \<and> (\<forall>code err. isErrorOutput (errorOutput (exitMessage code err)))
    \<and> (\<forall>out msg. JSON_parse (jsonLine out) = Inl msg \<longrightarrow>
          parseOutput out = errorOutput (js ''Failed to parse agent output: '' @ msg)
          \<and> isErrorOutput (parseOutput out))
    \<and> (\<forall>out. JSON_parse (jsonLine out) = Inr JNull \<longrightarrow>
          parseOutput out = errorOutput (js ''Failed to parse agent output: '' @ typeErrorMessage)
          \<and> isErrorOutput (parseOutput out))
    \<and> (\<forall>out v. JSON_parse (jsonLine out) = Inr v \<and> v \<noteq> JNull \<longrightarrow> parseOutput out = v)"
proof -
  let ?s = "runContainerAgent cfg FsOk evs"
  have inv: "settleInv ?s" by (rule settleInv_run[OF assms])
  have ri: "runInv ?s" by (rule runInv_run)
  have u: "uncaught ?s = None" using inv by (simp add: settleInv_def)
  have r: "\<forall>m. promise ?s \<noteq> Rejected m" using ri by (simp add: runInv_def)
  have "(promise ?s = Pending) = (timeout ?s = Armed)"
    using inv ri by (auto simp: settleInv_def runInv_def)
  then have p: "(promise ?s = Pending) = (\<forall>e\<in>set evs. isData e)"
    using assms by (simp add: armed_run_quiet)
  have d: "\<not> (\<forall>e\<in>set evs. isData e) \<longrightarrow>
      (\<exists>before e rest. evs = before @ e # rest \<and> (\<forall>d\<in>set before. isData d) \<and> \<not> isData e)"
    using first_other_event by blast
  have s: "\<forall>before e rest. evs = before @ e # rest \<and> (\<forall>d\<in>set before. isData d) \<longrightarrow>
      (e = TimeoutFires \<longrightarrow> promise ?s = Resolved (errorOutput (timeoutMessage cfg)))
      \<and> (\<forall>msg. e = ErrorEvent msg \<longrightarrow>
            promise ?s = Resolved (errorOutput (js ''Agent spawn error: '' @ msg)))
      \<and> (\<forall>code. e = Close code FsOk \<and> code \<noteq> Some 0 \<longrightarrow>
            promise ?s = Resolved (errorOutput
                (exitMessage code (stderr (runContainerAgent cfg FsOk before)))))
      \<and> (e = Close (Some 0) FsOk \<longrightarrow>
            promise ?s = Resolved (parseOutput (stdout (runContainerAgent cfg FsOk before))))"
  proof (intro allI impI, elim conjE)
    fix before e rest
    assume evs: "evs = before @ e # rest" and b: "\<forall>d\<in>set before. isData d"
    have t: "e = TimeoutFires \<longrightarrow> promise ?s = Resolved (errorOutput (timeoutMessage cfg))"
      using settled_stays[OF timeout_fires(1)[OF b]] evs by simp
    have e: "\<forall>msg. e = ErrorEvent msg \<longrightarrow>
        promise ?s = Resolved (errorOutput (js ''Agent spawn error: '' @ msg))"
      using settled_stays[OF error_after_data[OF b]] evs by simp
    have c: "\<forall>code. e = Close code FsOk \<and> code \<noteq> Some 0 \<longrightarrow>
        promise ?s = Resolved (errorOutput
            (exitMessage code (stderr (runContainerAgent cfg FsOk before))))"
      using settled_stays[OF close_after_data[OF b]] evs by simp
    have z: "e = Close (Some 0) FsOk \<longrightarrow>
        promise ?s = Resolved (parseOutput (stdout (runContainerAgent cfg FsOk before)))"
      using settled_stays[OF close_after_data[OF b, of cfg "Some 0"]] evs by simp
    show "(e = TimeoutFires \<longrightarrow> promise ?s = Resolved (errorOutput (timeoutMessage cfg)))
      \<and> (\<forall>msg. e = ErrorEvent msg \<longrightarrow>
            promise ?s = Resolved (errorOutput (js ''Agent spawn error: '' @ msg)))
      \<and> (\<forall>code. e = Close code FsOk \<and> code \<noteq> Some 0 \<longrightarrow>
            promise ?s = Resolved (errorOutput
                (exitMessage code (stderr (runContainerAgent cfg FsOk before)))))
      \<and> (e = Close (Some 0) FsOk \<longrightarrow>
            promise ?s = Resolved (parseOutput (stdout (runContainerAgent cfg FsOk before))))"
      using t e c z by blast
  qed
  have m1: "isErrorOutput (errorOutput (timeoutMessage cfg))"
    by (simp add: timeoutMessage_def)
  have m2: "\<forall>msg. isErrorOutput (errorOutput (js ''Agent spawn error: '' @ msg))"
    by simp
  have m3: "\<forall>code err. isErrorOutput (errorOutput (exitMessage code err))"
    by (simp add: exitMessage_def)
  have f: "\<forall>out msg. JSON_parse (jsonLine out) = Inl msg \<longrightarrow>
      parseOutput out = errorOutput (js ''Failed to parse agent output: '' @ msg)
      \<and> isErrorOutput (parseOutput out)"
    by (simp add: parse_failure_is_error)
  have n: "\<forall>out. JSON_parse (jsonLine out) = Inr JNull \<longrightarrow>
      parseOutput out = errorOutput (js ''Failed to parse agent output: '' @ typeErrorMessage)
      \<and> isErrorOutput (parseOutput out)"
    by (simp add: parse_failure_is_error)
  have v: "\<forall>out v. JSON_parse (jsonLine out) = Inr v \<and> v \<noteq> JNull \<longrightarrow> parseOutput out = v"
    by (simp add: parse_failure_is_error)
  from u r p d s m1 m2 m3 f n v show ?thesis by (intro conjI)
qed

text \<open>
  Claim C1 as stated: every invocation resolves with a \<open>ContainerOutput\<close>, and malformed
  structured output gives an error result. A worker that prints \<open>{}\<close> and exits with
  code zero makes the promise resolve with the empty object, which has no \<open>status\<close>: it
  is neither a \<open>ContainerOutput\<close> nor an error result.
\<close>

theorem unvalidated_output_counterexample:
  "promise (runContainerAgent exampleConfig FsOk
      [StdoutData (bytesOf (js ''{}'')), Close (Some 0) FsOk])
     = Resolved (JObject [])
   \<and> \<not> isContainerOutput (JObject [])
   \<and> \<not> isErrorOutput (JObject [])"
proof -
  have a: "promise (runContainerAgent exampleConfig FsOk
      [StdoutData (bytesOf (js ''{}'')), Close (Some 0) FsOk])
     = Resolved (JObject [])" by code_simp
  have b: "\<not> isContainerOutput (JObject [])"
    by (simp add: isContainerOutput_def getProp_def)
  have c: "\<not> isErrorOutput (JObject [])"
    by (simp add: isErrorOutput_def)
  show ?thesis using a b c by blast
qed

theorem runContainerAgent_resolves_witness:
  "list_all (\<lambda>e. \<not> escapes e)
     [StderrData (bytesOf (js ''boom'')), Close (Some 1) FsOk, TimeoutFires]
   \<and> uncaught (runContainerAgent exampleConfig FsOk
        [StderrData (bytesOf (js ''boom'')), Close (Some 1) FsOk, TimeoutFires]) = None
   \<and> promise (runContainerAgent exampleConfig FsOk
        [StderrData (bytesOf (js ''boom'')), Close (Some 1) FsOk, TimeoutFires])
       = Resolved (errorOutput (js ''Agent exited with code 1: boom''))
   \<and> isErrorOutput (errorOutput (js ''Agent exited with code 1: boom''))"
proof -
  let ?evs = "[StderrData (bytesOf (js ''boom'')), Close (Some 1) FsOk, TimeoutFires]"
  have h: "\<forall>e\<in>set ?evs. \<not> escapes e" by simp
  have m: "exitMessage (Some 1)
      (stderr (runContainerAgent exampleConfig FsOk [StderrData (bytesOf (js ''boom''))]))
      = js ''Agent exited with code 1: boom''" by code_simp
  have d: "?evs = [StderrData (bytesOf (js ''boom''))] @ Close (Some 1) FsOk # [TimeoutFires]
      \<and> (\<forall>d\<in>set [StderrData (bytesOf (js ''boom''))]. isData d)"
    by simp
  note t = runContainerAgent_resolves[OF h, of exampleConfig]
  have u: "uncaught (runContainerAgent exampleConfig FsOk ?evs) = None"
    using t by (rule conjunct1)
  have "\<forall>code. Close (Some 1) FsOk = Close code FsOk \<and> code \<noteq> Some 0 \<longrightarrow>
      promise (runContainerAgent exampleConfig FsOk ?evs)
        = Resolved (errorOutput (exitMessage code
            (stderr (runContainerAgent exampleConfig FsOk [StderrData (bytesOf (js ''boom''))]))))"
    using t[THEN conjunct2, THEN conjunct2, THEN conjunct2, THEN conjunct2, THEN conjunct1,
        rule_format, OF d]
    by (rule conjunct2[THEN conjunct2, THEN conjunct1])
  then have p: "promise (runContainerAgent exampleConfig FsOk ?evs)
      = Resolved (errorOutput (js ''Agent exited with code 1: boom''))"
    using m by simp
  have e: "isErrorOutput (errorOutput (js ''Agent exited with code 1: boom''))"
    by simp
  show ?thesis using h u p e by simp
qed

section \<open>Parsing the output of a worker that exited with code zero\<close>

lemma slice_inside:
  "a \<le> length s \<Longrightarrow> b \<le> length s \<Longrightarrow> slice s (int a) (int b) = take (b - a) (drop a s)"
  by (simp add: slice_def Let_def min_def nat_diff_distrib')

lemma jsonLine_markedText:
  "jsonLine out = (case markedText out of Some m \<Rightarrow> trim m | None \<Rightarrow> last (splitOn LF (trim out)))"
proof (cases "firstOccurrence OUTPUT_START_MARKER out")
  case None
  then show ?thesis
    by (simp add: jsonLine_def markedText_def indexOf_firstOccurrence)
next
  case (Some i)
  note i = this
  show ?thesis
  proof (cases "firstOccurrence OUTPUT_END_MARKER out")
    case None
    with i show ?thesis
      by (simp add: jsonLine_def markedText_def indexOf_firstOccurrence)
  next
    case (Some k)
    have il: "i + length OUTPUT_START_MARKER \<le> length out"
      using firstOccurrence_Some[OF i] by simp
    have kl: "k \<le> length out"
      using firstOccurrence_Some[OF Some] by simp
    have "slice out (int (i + length OUTPUT_START_MARKER)) (int k)
        = take (k - (i + length OUTPUT_START_MARKER)) (drop (i + length OUTPUT_START_MARKER) out)"
      by (rule slice_inside[OF il kl])
    then show ?thesis using i Some
      by (simp add: jsonLine_def markedText_def indexOf_firstOccurrence Let_def)
  qed
qed

text \<open>
  Claim C3. The text handed to \<open>JSON.parse\<close> is the text between the first occurrence of
  the start marker and the first occurrence of the end marker, trimmed, when both
  markers occur and the end marker's first occurrence lies after the start marker's;
  otherwise it is the last line of the trimmed output. That line is the last line of
  the output that is not empty, up to the white space around it (and it is the empty
  text when every line is empty). If parsing fails, or yields \<open>null\<close>, whose \<open>status\<close>
  cannot be read, the result is an error result whose message starts with
  \<open>Failed to parse agent output: \<close> and carries the message of the failure; any other
  parsed value is the result. When nothing but output has arrived before the close
  event with exit code zero, the invocation resolves with that result for the output
  captured so far.
\<close>

theorem zero_exit_parses_output:
  "jsonLine out = (case markedText out of Some m \<Rightarrow> trim m | None \<Rightarrow> last (splitOn LF (trim out)))
   \<and> (markedText out = None \<longrightarrow>
        (case lastNonEmptyLine out of
           None \<Rightarrow> jsonLine out = []
         | Some l \<Rightarrow> jsonLine out \<noteq> [] \<and> trim (jsonLine out) = trim l))
   \<and> (\<forall>msg. JSON_parse (jsonLine out) = Inl msg \<longrightarrow>
          parseOutput out = errorOutput (js ''Failed to parse agent output: '' @ msg))
   \<and> (JSON_parse (jsonLine out) = Inr JNull \<longrightarrow>
          parseOutput out = errorOutput (js ''Failed to parse agent output: '' @ typeErrorMessage))
   \<and> (\<forall>v. JSON_parse (jsonLine out) = Inr v \<and> v \<noteq> JNull \<longrightarrow> parseOutput out = v)
   \<and> ((\<forall>e\<in>set evs. isData e) \<longrightarrow>
          promise (runContainerAgent cfg FsOk (evs @ [Close (Some 0) FsOk]))
            = Resolved (parseOutput (stdout (runContainerAgent cfg FsOk evs))))"
proof -
  have a: "jsonLine out = (case markedText out of Some m \<Rightarrow> trim m | None \<Rightarrow> last (splitOn LF (trim out)))"
    by (rule jsonLine_markedText)
  have b: "markedText out = None \<longrightarrow>
        (case lastNonEmptyLine out of
           None \<Rightarrow> jsonLine out = []
         | Some l \<Rightarrow> jsonLine out \<noteq> [] \<and> trim (jsonLine out) = trim l)"
  proof
    assume "markedText out = None"
    then have j: "jsonLine out = last (splitOn LF (trim out))" by (simp add: a)
    show "case lastNonEmptyLine out of
           None \<Rightarrow> jsonLine out = []
         | Some l \<Rightarrow> jsonLine out \<noteq> [] \<and> trim (jsonLine out) = trim l"
      unfolding j by (rule last_line_is_last_nonempty)
  qed
  have c: "(\<forall>e\<in>set evs. isData e) \<longrightarrow>
          promise (runContainerAgent cfg FsOk (evs @ [Close (Some 0) FsOk]))
            = Resolved (parseOutput (stdout (runContainerAgent cfg FsOk evs)))"
    by (simp add: close_after_data)
  show ?thesis
    using a b c parse_failure_is_error by blast
qed


theorem zero_exit_parses_output_witness:
  "list_all isData bareTrace
   \<and> markedText (stdout (runContainerAgent roomyConfig FsOk bareTrace)) = None
   \<and> lastNonEmptyLine (stdout (runContainerAgent roomyConfig FsOk bareTrace)) = Some okText
   \<and> jsonLine (stdout (runContainerAgent roomyConfig FsOk bareTrace)) = okText
   \<and> promise (runContainerAgent roomyConfig FsOk (bareTrace @ [Close (Some 0) FsOk]))
       = Resolved okResult"
proof -
  let ?out = "stdout (runContainerAgent roomyConfig FsOk bareTrace)"
  have d: "\<forall>e\<in>set bareTrace. isData e" by (simp add: bareTrace_def)
  have m: "markedText ?out = None" by code_simp
  have l: "lastNonEmptyLine ?out = Some okText" by code_simp
  have j: "jsonLine ?out = okText" by code_simp
  have p: "parseOutput ?out = okResult" by code_simp
  show ?thesis
    using d m l j zero_exit_parses_output[where out = "?out" and cfg = roomyConfig and evs = bareTrace]
    by (simp add: p list_all_iff)
qed

section \<open>Decoding buffer by buffer\<close>

declare toString.simps [simp del] wellFormed.simps [simp del]

text \<open>Decoding a well-formed buffer does not depend on what comes after it, so decoding
  well-formed buffers one by one gives the text of their concatenation.\<close>

lemma toString_append:
  "wellFormed a \<Longrightarrow> toString (a @ x) = toString a @ toString x"
proof (induction "length a" arbitrary: a rule: less_induct)
  case less
  show ?case
  proof (cases a)
    case Nil
    then show ?thesis by (simp add: toString.simps(1))
  next
    case (Cons b bs)
    with less.prems have wf: "wellFormed (b # bs)" by simp
    show ?thesis
    proof (cases "classify b")
      case Single
      with wf have w: "wellFormed bs" by (simp add: wellFormed.simps(2))
      have "toString (bs @ x) = toString bs @ toString x"
        using less.hyps[of bs] Cons w by simp
      with Single Cons show ?thesis by (simp add: toString.simps(2))
    next
      case Invalid
      with wf show ?thesis by (simp add: wellFormed.simps(2))
    next
      case Lead2
      with wf obtain c cs where bs: "bs = c # cs" "secondOk b c" "wellFormed cs"
        by (auto simp: wellFormed.simps(2) split: list.splits)
      have "toString (cs @ x) = toString cs @ toString x"
        using less.hyps[of cs] Cons bs by simp
      with Lead2 Cons bs show ?thesis by (simp add: toString.simps(2))
    next
      case Lead3
      with wf obtain c d ds where bs: "bs = c # d # ds" "secondOk b c" "isContinuation d"
        "wellFormed ds"
        by (auto simp: wellFormed.simps(2) split: list.splits)
      have "toString (ds @ x) = toString ds @ toString x"
        using less.hyps[of ds] Cons bs by simp
      with Lead3 Cons bs show ?thesis by (simp add: toString.simps(2))
    next
      case Lead4
      with wf obtain c d e es where bs: "bs = c # d # e # es" "secondOk b c" "isContinuation d"
        "isContinuation e" "wellFormed es"
        by (auto simp: wellFormed.simps(2) split: list.splits)
      have "toString (es @ x) = toString es @ toString x"
        using less.hyps[of es] Cons bs by simp
      with Lead4 Cons bs show ?thesis by (simp add: toString.simps(2))
    qed
  qed
qed

lemma toString_concat:
  "\<forall>c\<in>set chunks. wellFormed c \<Longrightarrow> toString (concat chunks) = concat (map toString chunks)"
  by (induction chunks) (simp_all add: toString.simps(1) toString_append)

lemma received_decoded:
  "\<forall>e\<in>set evs. chunkWellFormed e \<Longrightarrow> stdoutReceived evs = toString (stdoutBytes evs)"
proof (induction evs)
  case Nil
  then show ?case by (simp add: stdoutReceived_def stdoutBytes_def toString.simps(1))
next
  case (Cons e evs)
  then have ih: "stdoutReceived evs = toString (stdoutBytes evs)" by simp
  show ?case
  proof (cases e)
    case (StdoutData data)
    with Cons.prems have "wellFormed data" by simp
    from toString_append[OF this, of "stdoutBytes evs"] ih StdoutData show ?thesis
      by (simp add: stdoutReceived_def stdoutBytes_def)
  qed (use ih in \<open>simp_all add: stdoutReceived_def stdoutBytes_def\<close>)
qed

section \<open>Writing a result and reading it back\<close>

declare quoteBody.simps [simp del] parseChars.simps [simp del]

lemma small_int_cases:
  "0 \<le> d \<Longrightarrow> d < 16 \<Longrightarrow>
     d = (0::int) \<or> d = 1 \<or> d = 2 \<or> d = 3 \<or> d = 4 \<or> d = 5 \<or> d = 6 \<or> d = 7 \<or> d = 8
     \<or> d = 9 \<or> d = 10 \<or> d = 11 \<or> d = 12 \<or> d = 13 \<or> d = 14 \<or> d = 15"
  by arith

lemma hexDigit_hexChar: "0 \<le> d \<Longrightarrow> d < 16 \<Longrightarrow> hexDigit (hexChar d) = Some (of_int d)"
proof -
  assume "0 \<le> d" "d < 16"
  from small_int_cases[OF this] show ?thesis
    by (elim disjE) (simp_all add: hexDigit_def hexChar_def)
qed

lemma hex_recompose:
  fixes n :: int
  shows "((n div 0x1000 * 16 + n div 0x100 mod 0x10) * 16 + n div 0x10 mod 0x10) * 16 + n mod 0x10 = n"
proof -
  have a: "n div 0x100 = n div 0x10 div 0x10" "n div 0x1000 = n div 0x100 div 0x10"
    using zdiv_zmult2_eq[of 16 n 16] zdiv_zmult2_eq[of 16 n 256] zdiv_zmult2_eq[of 256 n 16]
    by simp_all
  have e3: "n div 0x1000 * 16 + n div 0x100 mod 0x10 = n div 0x100"
    unfolding a(2) by (rule div_mult_mod_eq)
  have e2: "n div 0x100 * 16 + n div 0x10 mod 0x10 = n div 0x10"
    unfolding a(1) by (rule div_mult_mod_eq)
  have e1: "n div 0x10 * 16 + n mod 0x10 = n"
    by (rule div_mult_mod_eq)
  show ?thesis unfolding e3 e2 e1 ..
qed

lemma hex_digit_bounds:
  fixes n :: int
  assumes "0 \<le> n" "n < 0x10000"
  shows "0 \<le> n div 0x1000" "n div 0x1000 < 16" "0 \<le> n div 0x100 mod 0x10"
    "n div 0x100 mod 0x10 < 16" "0 \<le> n div 0x10 mod 0x10" "n div 0x10 mod 0x10 < 16"
    "0 \<le> n mod 0x10" "n mod 0x10 < 16"
  using assms by auto

lemma hex4_hexChars:
  "hex4 (hexChar (uint c div 0x1000)) (hexChar (uint c div 0x100 mod 0x10))
        (hexChar (uint c div 0x10 mod 0x10)) (hexChar (uint c mod 0x10)) = Some c"
proof -
  let ?n = "uint c"
  have n: "0 \<le> ?n" "?n < 0x10000" using uint_bounded[of c] by simp_all
  note b = hex_digit_bounds[OF n]
  have d1: "hexDigit (hexChar (?n div 0x1000)) = Some (of_int (?n div 0x1000))"
    by (rule hexDigit_hexChar[OF b(1,2)])
  have d2: "hexDigit (hexChar (?n div 0x100 mod 0x10)) = Some (of_int (?n div 0x100 mod 0x10))"
    by (rule hexDigit_hexChar[OF b(3,4)])
  have d3: "hexDigit (hexChar (?n div 0x10 mod 0x10)) = Some (of_int (?n div 0x10 mod 0x10))"
    by (rule hexDigit_hexChar[OF b(5,6)])
  have d4: "hexDigit (hexChar (?n mod 0x10)) = Some (of_int (?n mod 0x10))"
    by (rule hexDigit_hexChar[OF b(7,8)])
  have "(((of_int (?n div 0x1000) * 16 + of_int (?n div 0x100 mod 0x10)) * 16
        + of_int (?n div 0x10 mod 0x10)) * 16 + of_int (?n mod 0x10) :: jschar)
      = of_int (((?n div 0x1000 * 16 + ?n div 0x100 mod 0x10) * 16 + ?n div 0x10 mod 0x10) * 16
          + ?n mod 0x10)"
    by simp
  also have "\<dots> = of_int ?n" by (simp only: hex_recompose)
  also have "\<dots> = c" by simp
  finally have r: "((of_int (?n div 0x1000) * 16 + of_int (?n div 0x100 mod 0x10)) * 16
        + of_int (?n div 0x10 mod 0x10)) * 16 + of_int (?n mod 0x10) = c" .
  show ?thesis unfolding hex4_def d1 d2 d3 d4 using r by simp
qed

lemma parseChars_unicodeEscape:
  "parseChars (unicodeEscape c @ rest) = map_option (\<lambda>(str, r). (c # str, r)) (parseChars rest)"
  unfolding unicodeEscape_def by (simp add: parseChars.simps(2) hex4_hexChars)

lemma escapeOf_Some: "escapeOf c = Some e \<Longrightarrow> e \<noteq> 0x75 \<and> unescape e = Some c"
  by (auto simp: escapeOf_def unescape_def split: if_splits)

lemma parseChars_escape:
  "escapeOf c = Some e \<Longrightarrow>
     parseChars (0x5C # e # rest) = map_option (\<lambda>(str, r). (c # str, r)) (parseChars rest)"
  using escapeOf_Some[of c e] by (simp add: parseChars.simps(2))

lemma escapeOf_None: "escapeOf c = None \<Longrightarrow> c \<noteq> 0x22 \<and> c \<noteq> 0x5C"
  by (auto simp: escapeOf_def split: if_splits)

lemma parseChars_literal:
  "escapeOf c = None \<Longrightarrow> \<not> isControl c \<Longrightarrow>
     parseChars (c # rest) = map_option (\<lambda>(str, r). (c # str, r)) (parseChars rest)"
  using escapeOf_None[of c] by (simp add: parseChars.simps(2) isControl_def)

lemma trail_literal: "isTrailSurrogate d \<Longrightarrow> escapeOf d = None \<and> \<not> isControl d"
proof -
  assume "isTrailSurrogate d"
  then have d: "0xDC00 \<le> d" by (simp add: isTrailSurrogate_def)
  have "\<not> d < 0x20"
  proof
    assume "d < 0x20"
    with d have "(0xDC00 :: jschar) < 0x20" by (rule le_less_trans)
    then show False by simp
  qed
  moreover have "escapeOf d = None"
    using d by (auto simp: escapeOf_def)
  ultimately show ?thesis by (simp add: isControl_def)
qed

lemma parseChars_quoteBody:
  "parseChars (quoteBody s @ 0x22 # rest) = Some (s, rest)"
proof (induction "length s" arbitrary: s rule: less_induct)
  case less
  show ?case
  proof (cases s)
    case Nil
    then show ?thesis by (simp add: quoteBody.simps(1) parseChars.simps(2))
  next
    case (Cons c cs)
    have ih: "parseChars (quoteBody cs @ 0x22 # rest) = Some (cs, rest)"
      using less[of cs] Cons by simp
    show ?thesis
    proof (cases "escapeOf c")
      case (Some e)
      then show ?thesis
        using Cons ih parseChars_escape[OF Some] by (simp add: quoteBody.simps(2))
    next
      case None
      note esc = this
      show ?thesis
      proof (cases "isControl c \<or> isTrailSurrogate c")
        case True
        then show ?thesis
          using Cons ih esc by (simp add: quoteBody.simps(2) parseChars_unicodeEscape)
      next
        case False
        note nc = this
        show ?thesis
        proof (cases "isLeadSurrogate c")
          case False
          then show ?thesis
            using Cons ih esc nc parseChars_literal[OF esc] by (simp add: quoteBody.simps(2))
        next
          case True
          show ?thesis
          proof (cases cs)
            case Nil
            then show ?thesis
              using Cons esc nc True
              by (simp add: quoteBody.simps parseChars_unicodeEscape parseChars.simps(2))
          next
            case (Cons d ds)
            note cs = this
            show ?thesis
            proof (cases "isTrailSurrogate d")
              case False
              then show ?thesis
                using \<open>s = c # cs\<close> cs ih esc nc True
                by (simp add: quoteBody.simps(2)[of c] parseChars_unicodeEscape)
            next
              case td: True
              have ih2: "parseChars (quoteBody ds @ 0x22 # rest) = Some (ds, rest)"
                using less[of ds] \<open>s = c # cs\<close> cs by simp
              have "parseChars (c # d # quoteBody ds @ 0x22 # rest) = Some (c # d # ds, rest)"
                using parseChars_literal[OF esc, of "d # quoteBody ds @ 0x22 # rest"] nc
                  parseChars_literal[of d "quoteBody ds @ 0x22 # rest"] trail_literal[OF td] ih2
                by simp
              then show ?thesis
                using \<open>s = c # cs\<close> cs esc nc True td by (simp add: quoteBody.simps(2)[of c])
            qed
          qed
        qed
      qed
    qed
  qed
qed

lemma skipWs_not_space: "\<not> isJsonSpace c \<Longrightarrow> skipWs (c # cs) = c # cs"
  by (simp add: skipWs_def)

lemma not_space [simp]:
  "\<not> isJsonSpace 0x22" "\<not> isJsonSpace 0x3A" "\<not> isJsonSpace 0x7D" "\<not> isJsonSpace 0x2C"
  "\<not> isJsonSpace 0x7B" "\<not> isJsonSpace 0x6E"
  by (simp_all add: isJsonSpace_def)

lemma parseValue_simple:
  "simpleValue v \<Longrightarrow> parseValue (Suc n) (JSON_stringify v @ rest) = Some (v, rest)"
proof (cases v)
  case JNull
  then show ?thesis by (simp add: js_def skipWs_not_space)
next
  case (JString s)
  then show ?thesis
    by (simp add: quote_def skipWs_not_space parseChars_quoteBody)
qed (simp_all add: simpleValue_def)

lemma stringifyMembers_Cons:
  "stringifyMembers ((k, v) # ms) @ 0x7D # rest
     = 0x22 # quoteBody k @ 0x22 # 0x3A # JSON_stringify v
       @ (if ms = [] then 0x7D # rest else 0x2C # stringifyMembers ms @ 0x7D # rest)"
  by (cases ms) (auto simp: quote_def js_def)

lemma parseMembers_members:
  "\<forall>m\<in>set ms. simpleValue (snd m) \<Longrightarrow> ms \<noteq> [] \<Longrightarrow> length ms < n \<Longrightarrow>
     parseMembers n (stringifyMembers ms @ 0x7D # rest) acc
       = Some (JObject (foldl (\<lambda>a m. setProp (fst m) (snd m) a) acc ms), rest)"
proof (induction ms arbitrary: n acc)
  case Nil
  then show ?case by simp
next
  case (Cons m ms)
  obtain k v where m: "m = (k, v)" by (cases m)
  from Cons.prems(3) obtain n' where n: "n = Suc (Suc n')" "length ms \<le> n'"
    by (cases n; cases "n - 1") auto
  have sv: "simpleValue v" using Cons.prems(1) m by simp
  have pv: "parseValue (Suc n') (JSON_stringify v @ r) = Some (v, r)" for r
    by (rule parseValue_simple[OF sv])
  show ?case
  proof (cases "ms = []")
    case True
    then show ?thesis
      unfolding m n stringifyMembers_Cons
      by (simp add: skipWs_not_space parseChars_quoteBody pv del: parseValue.simps)
  next
    case False
    have "length ms < Suc n'" using n(2) by simp
    from Cons.IH[OF _ False this, of "setProp k v acc"] Cons.prems(1)
    have ih: "parseMembers (Suc n') (stringifyMembers ms @ 0x7D # rest) (setProp k v acc)
        = Some (JObject (foldl (\<lambda>a m. setProp (fst m) (snd m) a) (setProp k v acc) ms), rest)"
      by simp
    show ?thesis
      unfolding m n stringifyMembers_Cons using False
      by (subst parseMembers.simps(2))
        (simp add: skipWs_not_space parseChars_quoteBody pv ih
          del: parseValue.simps parseMembers.simps(2))
  qed
qed

lemma stringifyMembers_length: "length ms \<le> length (stringifyMembers ms)"
proof (induction ms)
  case Nil
  then show ?case by simp
next
  case (Cons m ms)
  obtain k v where m: "m = (k, v)" by (cases m)
  have "Suc (length (stringifyMembers ms)) \<le> length (stringifyMembers ((k, v) # ms))"
    by (cases ms) (simp_all add: quote_def js_def)
  with Cons m show ?case by simp
qed

lemma JSON_parse_object:
  assumes "\<forall>m\<in>set ms. simpleValue (snd m)" "ms \<noteq> []"
  shows "JSON_parse (JSON_stringify (JObject ms))
           = Inr (JObject (foldl (\<lambda>a m. setProp (fst m) (snd m) a) [] ms))"
proof -
  let ?t = "JSON_stringify (JObject ms)"
  obtain m ms' where ms: "ms = m # ms'" using assms(2) by (cases ms) auto
  obtain k v where m: "m = (k, v)" by (cases m)
  have t: "?t = 0x7B # stringifyMembers ms @ 0x7D # []" by (simp add: js_def)
  have "length ms + 2 \<le> length ?t"
    using stringifyMembers_length[of ms] by (simp add: js_def)
  then obtain n where n: "2 * length ?t + 2 = Suc n" "length ms < n"
    by (cases "2 * length ?t + 2") auto
  have first: "skipWs (stringifyMembers ms @ 0x7D # []) = stringifyMembers ms @ 0x7D # []"
    "\<exists>r. stringifyMembers ms @ 0x7D # [] = 0x22 # r"
    unfolding ms m stringifyMembers_Cons by (simp_all add: skipWs_not_space)
  then obtain r where r: "stringifyMembers ms @ 0x7D # [] = 0x22 # r" by blast
  have "parseValue (Suc n) ?t = parseMembers n (stringifyMembers ms @ 0x7D # []) []"
    unfolding t by (simp add: skipWs_not_space first(1)) (simp add: r)
  also have "\<dots> = Some (JObject (foldl (\<lambda>a m. setProp (fst m) (snd m) a) [] ms), [])"
    by (rule parseMembers_members[OF assms(1,2) n(2)])
  finally show ?thesis
    unfolding JSON_parse_def n(1) by (simp add: skipWs_def)
qed

lemma setProp_new: "k \<notin> fst ` set acc \<Longrightarrow> setProp k v acc = acc @ [(k, v)]"
  by (induction acc) auto

lemma setProp_distinct:
  "distinct (map fst (acc @ ms)) \<Longrightarrow>
     foldl (\<lambda>a m. setProp (fst m) (snd m) a) acc ms = acc @ ms"
proof (induction ms arbitrary: acc)
  case Nil
  then show ?case by simp
next
  case (Cons m ms)
  have new: "fst m \<notin> fst ` set acc" using Cons.prems by auto
  have "distinct (map fst ((acc @ [m]) @ ms))" using Cons.prems by simp
  from Cons.IH[OF this] show ?case
    using setProp_new[OF new, of "snd m"] by simp
qed

text \<open>The text \<open>JSON.stringify\<close> writes for an object of strings and \<open>null\<close> parses to the
  same object.\<close>

lemma JSON_roundtrip:
  assumes "plainObject v" "v \<noteq> JObject []"
  shows "JSON_parse (JSON_stringify v) = Inr v"
proof -
  from assms obtain ms where v: "v = JObject ms" "distinct (map fst ms)"
    "\<forall>m\<in>set ms. simpleValue (snd m)" "ms \<noteq> []"
    by (cases v) (auto simp: plainObject_def list_all_iff)
  show ?thesis
    unfolding v(1) using JSON_parse_object[OF v(3,4)] setProp_distinct[of "[]" ms] v(2)
    by simp
qed

lemma trim_object_text:
  assumes "list_all isWhiteSpace a" "list_all isWhiteSpace b"
  shows "trim (a @ JSON_stringify (JObject ms) @ b) = JSON_stringify (JObject ms)"
proof -
  let ?t = "JSON_stringify (JObject ms)"
  have w: "\<not> isWhiteSpace 0x7B" "\<not> isWhiteSpace 0x7D"
    by (simp_all add: isWhiteSpace_def)
  have t: "?t = 0x7B # stringifyMembers ms @ [0x7D]" by (simp add: js_def)
  have "trim (a @ ?t @ b) = trim (?t @ b)" by (rule trim_ws_prefix[OF assms(1)])
  also have "\<dots> = trim ?t" by (rule trim_ws_suffix[OF assms(2)])
  also have "\<dots> = ?t" unfolding t trim_def using w by simp
  finally show ?thesis .
qed

lemma isContainerOutput_not_empty: "isContainerOutput v \<Longrightarrow> v \<noteq> JObject []"
  by (auto simp: isContainerOutput_def getProp_def)

section \<open>Recovering the result between the markers\<close>

text \<open>
  Claim C4, as amended. Let \<open>v\<close> be a result: a \<open>ContainerOutput\<close> whose properties hold
  strings or \<open>null\<close>. Let the worker write bytes that are, decoded as UTF-8, some text
  \<open>pre\<close>, the start marker, the text \<open>JSON.stringify\<close> gives for \<open>v\<close> with white space
  around it, the end marker and some text \<open>post\<close>, all of it within the output cap. Let
  these bytes arrive in buffers each of which is well-formed UTF-8 by itself, so that
  no buffer ends inside a character, and let nothing but output arrive before the close
  event with exit code zero. If the start marker does not occur before the place it was
  written to and the end marker does not occur before the place it was written to
  (neither in \<open>pre\<close> nor inside the text of \<open>v\<close>), then the text the runner has captured
  is the text the worker wrote and the invocation resolves with exactly \<open>v\<close>, whatever
  \<open>pre\<close> and \<open>post\<close> hold otherwise and whatever arrives later.
\<close>

theorem marked_result_recovered:
  assumes "\<forall>e\<in>set evs. isData e"
    and "\<forall>e\<in>set evs. chunkWellFormed e"
    and "toString (stdoutBytes evs)
          = pre @ OUTPUT_START_MARKER @ (ws1 @ JSON_stringify v @ ws2) @ OUTPUT_END_MARKER @ post"
    and "list_all isWhiteSpace ws1" and "list_all isWhiteSpace ws2"
    and "int (length (toString (stdoutBytes evs))) \<le> AGENT_MAX_OUTPUT_SIZE cfg"
    and "indexOf (pre @ OUTPUT_START_MARKER) OUTPUT_START_MARKER = int (length pre)"
    and "indexOf (pre @ OUTPUT_START_MARKER @ (ws1 @ JSON_stringify v @ ws2) @ OUTPUT_END_MARKER)
            OUTPUT_END_MARKER
          = int (length pre + length OUTPUT_START_MARKER + length (ws1 @ JSON_stringify v @ ws2))"
    and "isContainerOutput v"
    and "plainObject v"
  shows "stdout (runContainerAgent cfg FsOk evs) = toString (stdoutBytes evs)
    \<and> JSON_parse (trim (ws1 @ JSON_stringify v @ ws2)) = Inr v
    \<and> promise (runContainerAgent cfg FsOk (evs @ [Close (Some 0) FsOk])) = Resolved v
    \<and> (\<forall>rest. promise (runContainerAgent cfg FsOk (evs @ Close (Some 0) FsOk # rest)) = Resolved v)"
proof -
  let ?j = "ws1 @ JSON_stringify v @ ws2"
  let ?out = "pre @ OUTPUT_START_MARKER @ ?j @ OUTPUT_END_MARKER @ post"
  have rec: "stdoutReceived evs = toString (stdoutBytes evs)"
    by (rule received_decoded[OF assms(2)])
  have cap: "0 \<le> AGENT_MAX_OUTPUT_SIZE cfg" using assms(6) by simp
  have "stdout (runContainerAgent cfg FsOk evs)
      = take (nat (AGENT_MAX_OUTPUT_SIZE cfg)) (stdoutReceived evs)"
    using capInv_run[OF cap, of evs] by (simp add: capInv_def)
  then have whole: "stdout (runContainerAgent cfg FsOk evs) = toString (stdoutBytes evs)"
    using assms(6) rec by simp
  then have out: "stdout (runContainerAgent cfg FsOk evs) = ?out"
    using assms(3) by simp
  from assms(10) obtain ms where v: "v = JObject ms"
    by (cases v) (auto simp: plainObject_def)
  have tr: "trim ?j = JSON_stringify v"
    unfolding v by (rule trim_object_text[OF assms(4,5)])
  have ne: "v \<noteq> JObject []" by (rule isContainerOutput_not_empty[OF assms(9)])
  have parse: "JSON_parse (trim ?j) = Inr v"
    unfolding tr by (rule JSON_roundtrip[OF assms(10) ne])
  have jl: "jsonLine ?out = trim ?j"
    by (rule jsonLine_between[OF assms(7,8)])
  have nn: "v \<noteq> JNull" by (rule isContainerOutput_not_null[OF assms(9)])
  have po: "parseOutput ?out = v"
    using parse_failure_is_error(3)[of ?out v] jl parse nn by simp
  have cl: "promise (runContainerAgent cfg FsOk (evs @ [Close (Some 0) FsOk])) = Resolved v"
    using close_after_data[OF assms(1), of cfg "Some 0"] out po by simp
  have "\<forall>rest. promise (runContainerAgent cfg FsOk (evs @ Close (Some 0) FsOk # rest)) = Resolved v"
    using settled_stays[OF cl] by simp
  with whole parse cl show ?thesis by (intro conjI)
qed

lemma whole_bytes:
  "toString (stdoutBytes wholeTrace)
     = (js ''starting agent'' @ [LF]) @ OUTPUT_START_MARKER
       @ ([LF] @ JSON_stringify cafeResult @ [LF])
       @ OUTPUT_END_MARKER @ ([LF] @ js ''done'' @ [LF])"
  by code_simp

lemma whole_fits:
  "int (length (toString (stdoutBytes wholeTrace))) \<le> AGENT_MAX_OUTPUT_SIZE roomyConfig"
  by code_simp

lemma whole_start:
  "indexOf ((js ''starting agent'' @ [LF]) @ OUTPUT_START_MARKER) OUTPUT_START_MARKER
     = int (length (js ''starting agent'' @ [LF]))"
  by code_simp

lemma whole_end:
  "indexOf ((js ''starting agent'' @ [LF]) @ OUTPUT_START_MARKER
      @ ([LF] @ JSON_stringify cafeResult @ [LF]) @ OUTPUT_END_MARKER) OUTPUT_END_MARKER
     = int (length (js ''starting agent'' @ [LF]) + length OUTPUT_START_MARKER
            + length ([LF] @ JSON_stringify cafeResult @ [LF]))"
  by code_simp

lemma cafeResult_shape: "isContainerOutput cafeResult" "plainObject cafeResult"
  by (simp_all add: isContainerOutput_def plainObject_def cafeResult_def getProp_def
      isStringOrAbsent_def simpleValue_def js_def)

theorem marked_result_recovered_witness:
  "list_all isData wholeTrace
   \<and> list_all chunkWellFormed wholeTrace
   \<and> list_all isWhiteSpace [LF]
   \<and> isContainerOutput cafeResult
   \<and> plainObject cafeResult
   \<and> promise (runContainerAgent roomyConfig FsOk (wholeTrace @ [Close (Some 0) FsOk]))
       = Resolved cafeResult"
proof -
  have d: "\<forall>e\<in>set wholeTrace. isData e" by (simp add: wholeTrace_def)
  have c: "list_all chunkWellFormed wholeTrace" by code_simp
  then have c': "\<forall>e\<in>set wholeTrace. chunkWellFormed e" by (simp add: list_all_iff)
  have w: "list_all isWhiteSpace [LF]" by (simp add: isWhiteSpace_def LF_def)
  show ?thesis
    using d c w cafeResult_shape
      marked_result_recovered[OF d c' whole_bytes w w whole_fits whole_start whole_end
        cafeResult_shape]
    by (simp add: list_all_iff)
qed

text \<open>
  Claim C4 as stated holds for every result, for arbitrary lines before the start
  marker and however the output arrives. A result whose text holds the end marker is
  cut at that occurrence: the text between the markers does not parse and the
  invocation resolves with a parse failure. A log line before the start marker that
  holds the end marker makes the end marker's first occurrence precede the start
  marker's: the fallback takes the last line, the end marker itself, which does not
  parse either. With an output cap of ten code units the well-formed output of
  \<open>wrappedTrace\<close> is cut before the start marker. And when the bytes of \<open>wholeTrace\<close>
  arrive in buffers of which one ends inside the character of two bytes, each half is
  decoded by itself to a replacement character: the invocation resolves with a result
  that is not the one the worker wrote.
\<close>

theorem marker_in_result_counterexample:
  "JSON_stringify markerResult = markerText
   \<and> isContainerOutput markerResult
   \<and> promise (runContainerAgent roomyConfig FsOk
        [StdoutData (bytesOf
           (OUTPUT_START_MARKER @ [LF] @ markerText @ [LF] @ OUTPUT_END_MARKER @ [LF])),
         Close (Some 0) FsOk])
       = Resolved (parseFailure syntaxErrorMessage)
   \<and> parseFailure syntaxErrorMessage \<noteq> markerResult
   \<and> JSON_stringify okResult = okText
   \<and> isContainerOutput okResult
   \<and> promise (runContainerAgent roomyConfig FsOk
        [StdoutData (bytesOf (js ''waiting for '' @ OUTPUT_END_MARKER @ [LF])),
         StdoutData (bytesOf
           (OUTPUT_START_MARKER @ [LF] @ okText @ [LF] @ OUTPUT_END_MARKER @ [LF])),
         Close (Some 0) FsOk])
       = Resolved (parseFailure syntaxErrorMessage)
   \<and> parseFailure syntaxErrorMessage \<noteq> okResult
   \<and> promise (runContainerAgent exampleConfig FsOk (wrappedTrace @ [Close (Some 0) FsOk]))
       = Resolved (parseFailure syntaxErrorMessage)
   \<and> toString cafeBytes = JSON_stringify cafeResult
   \<and> isContainerOutput cafeResult
   \<and> stdoutBytes splitTrace = stdoutBytes wholeTrace
   \<and> promise (runContainerAgent roomyConfig FsOk (splitTrace @ [Close (Some 0) FsOk]))
       = Resolved garbledResult
   \<and> garbledResult \<noteq> cafeResult"
proof -
  have a: "JSON_stringify markerResult = markerText" by code_simp
  have b: "isContainerOutput markerResult"
    by (simp add: isContainerOutput_def markerResult_def getProp_def isStringOrAbsent_def js_def)
  have c: "promise (runContainerAgent roomyConfig FsOk
        [StdoutData (bytesOf
           (OUTPUT_START_MARKER @ [LF] @ markerText @ [LF] @ OUTPUT_END_MARKER @ [LF])),
         Close (Some 0) FsOk])
       = Resolved (parseFailure syntaxErrorMessage)" by code_simp
  have d: "parseFailure syntaxErrorMessage \<noteq> markerResult"
    by (simp add: parseFailure_def errorOutput_def markerResult_def)
  have e: "JSON_stringify okResult = okText" by code_simp
  have f: "isContainerOutput okResult"
    by (simp add: isContainerOutput_def okResult_def getProp_def isStringOrAbsent_def js_def)
  have g: "promise (runContainerAgent roomyConfig FsOk
        [StdoutData (bytesOf (js ''waiting for '' @ OUTPUT_END_MARKER @ [LF])),
         StdoutData (bytesOf
           (OUTPUT_START_MARKER @ [LF] @ okText @ [LF] @ OUTPUT_END_MARKER @ [LF])),
         Close (Some 0) FsOk])
       = Resolved (parseFailure syntaxErrorMessage)" by code_simp
  have h: "parseFailure syntaxErrorMessage \<noteq> okResult"
    by (simp add: parseFailure_def errorOutput_def okResult_def)
  have i: "promise (runContainerAgent exampleConfig FsOk (wrappedTrace @ [Close (Some 0) FsOk]))
       = Resolved (parseFailure syntaxErrorMessage)" by code_simp
  have k: "toString cafeBytes = JSON_stringify cafeResult" by code_simp
  have l: "isContainerOutput cafeResult" by (rule cafeResult_shape(1))
  have m: "stdoutBytes splitTrace = stdoutBytes wholeTrace" by code_simp
  have n: "promise (runContainerAgent roomyConfig FsOk (splitTrace @ [Close (Some 0) FsOk]))
       = Resolved garbledResult" by code_simp
  have o: "garbledResult \<noteq> cafeResult"
    by (simp add: garbledResult_def cafeResult_def replacement_def)
  from a b c d e f g h i k l m n o show ?thesis by (intro conjI)
qed

end
